theory Spec2Isabelle
  imports Complex_Main "HOL-Library.AList" "HOL-Library.Multiset" "HOL-Library.Product_Lexorder"
begin

section \<open>Trailer planning as a minimum flow: the model of \<^verbatim>\<open>trailer_opt.py\<close>\<close>

text \<open>
  The program reads a driver schedule (one row per stop of a route), derives the legs
  between consecutive stops, builds a directed graph over pools and legs with
  \<^verbatim>\<open>networkx\<close>, turns the graph into a linear program with \<^verbatim>\<open>docplex\<close> and
  minimises the total flow from the source to the sink.

  Conventions of the embedding.
  \<^item> A timestamp is an \<^typ>\<open>int\<close>, the number of seconds since an epoch; the source
    parses its timestamps to the second. \<^verbatim>\<open>timedelta(hours=h)\<close> is \<open>h * 3600\<close>.
  \<^item> Route, Sequence and Zip are integers, as \<^verbatim>\<open>read_excel\<close> gives them.
  \<^item> A Python exception is a value \<open>Inl e\<close> of a sum type.
  \<^item> The spreadsheet reader and the solving engine are libraries: the rows read
    from the file are the input of the model, and the engine is a parameter
    \<open>solver\<close> of the entry point.
\<close>

subsection \<open>Configs and parameters\<close>

definition preload_time :: int where
  "preload_time = 6"

definition drop_time :: int where
  "drop_time = 8"

definition td_hours :: "int \<Rightarrow> int" where
  "td_hours h = h * 3600"

text \<open>
  A \<^verbatim>\<open>Timestamp\<close> of pandas counts nanoseconds in 64 bits, so a whole second \<open>t\<close> is a
  timestamp exactly when \<open>- 9223372036 \<le> t \<le> 9223372036\<close>. Adding a \<^verbatim>\<open>timedelta\<close> to a
  timestamp raises \<^verbatim>\<open>OutOfBoundsDatetime\<close> when the sum is not one.
\<close>

definition ts_max :: int where
  "ts_max = 9223372036"

definition ts_ok :: "int \<Rightarrow> bool" where
  "ts_ok t = (- ts_max \<le> t \<and> t \<le> ts_max)"

datatype py_error = KeyError | OutOfBoundsDatetime

subsection \<open>The schedule: \<^verbatim>\<open>read_driver_schedule\<close>\<close>

text \<open>
  A row of the sheet, with the columns the program goes on to use; \<^verbatim>\<open>ArvDTTM\<close> is the
  timestamp that \<^verbatim>\<open>to_datetime\<close> gave for the two text columns of the arrival, a
  value within the bounds above. The
  columns \<^verbatim>\<open>NxtArvDTTM\<close> and \<^verbatim>\<open>DestZip\<close> are added to the frame by the function.
\<close>

record stop =
  Route :: int
  Sequence :: int
  Zip :: int
  ArvDTTM :: int

record leg = stop +
  NxtArvDTTM :: int
  DestZip :: int

text \<open>
  \<^verbatim>\<open>Series.shift(-1)\<close>: every row gets the value of the row after it and the last
  row gets a missing value.
\<close>

definition shift_m1 :: "'a list \<Rightarrow> 'a option list" where
  "shift_m1 xs = (if xs = [] then [] else map Some (tl xs) @ [None])"

text \<open>\<^verbatim>\<open>df.groupby(['Route'])['Sequence'].transform(max)\<close>, at a row of route \<open>r\<close>.\<close>

definition transform_max :: "stop list \<Rightarrow> int \<Rightarrow> int" where
  "transform_max df r = Max (set (map Sequence (filter (\<lambda>s. Route s = r) df)))"

fun leg_of :: "stop \<times> stop option \<Rightarrow> leg option" where
  "leg_of (s, Some n) =
     Some \<lparr>Route = Route s, Sequence = Sequence s, Zip = Zip s, ArvDTTM = ArvDTTM s,
           NxtArvDTTM = ArvDTTM n, DestZip = Zip n\<rparr>"
| "leg_of (s, None) = None"

text \<open>
  The frame is sorted by (Route, Sequence) (a stable sort), the two shifted columns
  are added, and the rows that carry the maximal Sequence of their route are dropped.
  A row whose shifted columns are missing has no leg; \<open>kept_rows_have_next\<close> below
  shows that no such row survives the filter. \<^verbatim>\<open>if sample_size\<close> is false for
  \<^verbatim>\<open>None\<close> and for \<open>0\<close>.
\<close>

definition kept_rows :: "stop list \<Rightarrow> (stop \<times> stop option) list" where
  "kept_rows file =
     (let df = sort_key (\<lambda>s. (Route s, Sequence s)) file
      in filter (\<lambda>(s, n). transform_max df (Route s) \<noteq> Sequence s) (zip df (shift_m1 df)))"

definition read_driver_schedule :: "stop list \<Rightarrow> int option \<Rightarrow> leg list" where
  "read_driver_schedule file sample_size =
     (let df = List.map_filter leg_of (kept_rows file)
      in case sample_size of
           None \<Rightarrow> df
         | Some k \<Rightarrow> if k \<noteq> 0 then filter (\<lambda>l. Route l \<le> k) df else df)"

subsection \<open>The directed graph\<close>

text \<open>
  The nodes of the source are the strings \<^verbatim>\<open>'s'\<close> and \<^verbatim>\<open>'t'\<close>, the pairs
  \<^verbatim>\<open>(loc, 'out')\<close>, \<^verbatim>\<open>(loc, 'in')\<close> and the triples \<^verbatim>\<open>(Route, Sequence, 'start')\<close>,
  \<^verbatim>\<open>(Route, Sequence, 'end')\<close>. Values of different shapes are never equal in Python,
  so the four shapes are four constructors. \<open>Nan_loc\<close> and \<open>Nan_trl\<close> are the keys
  \<^verbatim>\<open>(nan, 'out')\<close>, \<^verbatim>\<open>(nan, 'in')\<close>, \<^verbatim>\<open>(nan, nan, 'start')\<close> and \<^verbatim>\<open>(nan, nan, 'end')\<close>
  that a row of missing values gives (see \<open>apply_axis1\<close> below).
\<close>

datatype pool_side = Pool_out | Pool_in

datatype trl_side = Trl_start | Trl_end

datatype node = Src | Snk | Loc int pool_side | Trl int int trl_side
  | Nan_loc pool_side | Nan_trl trl_side

datatype node_tag = source | target | location | trailer_start | trailer_end

datatype edge_tag = src_pool | sink_pool | trl_supp | trl_rtrn | trailer_utilization | same_trailer

text \<open>
  The attribute dictionary of a node. Every \<^verbatim>\<open>add_node\<close> of the source passes one of
  five fixed sets of keys, and a node of one shape only ever receives one of them, so
  a dictionary is one of the five or empty. It is empty for a node that \<^verbatim>\<open>add_edge\<close>
  had to create. \<open>Trailer_start l t\<close> is \<^verbatim>\<open>{start_loc: l, start: t, tag: 'trailer_start'}\<close>
  and \<open>Trailer_end l t\<close> is \<^verbatim>\<open>{end_loc: l, end: t, tag: 'trailer_end'}\<close>.
\<close>

datatype attrs = No_attrs | Source | Target | Location | Trailer_start int int | Trailer_end int int

fun tag :: "attrs \<Rightarrow> node_tag option" where
  "tag No_attrs = None"
| "tag Source = Some source"
| "tag Target = Some target"
| "tag Location = Some location"
| "tag (Trailer_start l t) = Some trailer_start"
| "tag (Trailer_end l t) = Some trailer_end"

text \<open>
  A \<^verbatim>\<open>DiGraph\<close>: the nodes with their attributes, and the edges, keyed by the pair of
  their end nodes, with their tag. Both are dictionaries in insertion order: writing to
  a key that is there replaces its value in place. \<^verbatim>\<open>G.edges()\<close> lists the same
  pairs grouped by their first node; the program only sums over them and copies them
  into a dictionary, so the order of the list does not show. The source reads the
  attributes of a node through \<^verbatim>\<open>G.node\<close>, the attribute view of the versions of
  \<^verbatim>\<open>networkx\<close> before 2.4; \<open>node_attrs\<close> is that lookup.
\<close>

record graph =
  nodes :: "(node \<times> attrs) list"
  edges :: "((node \<times> node) \<times> edge_tag) list"

definition empty_graph :: graph where
  "empty_graph = \<lparr>nodes = [], edges = []\<rparr>"

definition add_node :: "node \<Rightarrow> attrs \<Rightarrow> graph \<Rightarrow> graph" where
  "add_node n a G = G\<lparr>nodes := AList.update n a (nodes G)\<rparr>"

text \<open>\<^verbatim>\<open>add_edge\<close> first creates the end nodes that are missing, with no attributes.\<close>

definition touch_node :: "node \<Rightarrow> graph \<Rightarrow> graph" where
  "touch_node n G = (if n \<in> fst ` set (nodes G) then G else G\<lparr>nodes := nodes G @ [(n, No_attrs)]\<rparr>)"

definition add_edge :: "node \<times> node \<Rightarrow> edge_tag \<Rightarrow> graph \<Rightarrow> graph" where
  "add_edge e tg G =
     (let G' = touch_node (snd e) (touch_node (fst e) G)
      in G'\<lparr>edges := AList.update e tg (edges G')\<rparr>)"

definition add_edges_from :: "(node \<times> node) list \<Rightarrow> edge_tag \<Rightarrow> graph \<Rightarrow> graph" where
  "add_edges_from es tg G = fold (\<lambda>e. add_edge e tg) es G"

definition edge_list :: "graph \<Rightarrow> (node \<times> node) list" where
  "edge_list G = map fst (edges G)"

definition node_list :: "graph \<Rightarrow> node list" where
  "node_list G = map fst (nodes G)"

definition neighbors :: "graph \<Rightarrow> node \<Rightarrow> node list" where
  "neighbors G i = map snd (filter (\<lambda>e. fst e = i) (edge_list G))"

definition node_attrs :: "graph \<Rightarrow> node \<Rightarrow> attrs" where
  "node_attrs G n = (case map_of (nodes G) n of Some a \<Rightarrow> a | None \<Rightarrow> No_attrs)"

definition edge_tag_of :: "graph \<Rightarrow> node \<times> node \<Rightarrow> edge_tag option" where
  "edge_tag_of G e = map_of (edges G) e"

text \<open>
  \<^verbatim>\<open>[x for x, y in G.nodes(data=True) if y['tag'] == tg]\<close>: the lookup of the tag
  raises \<^verbatim>\<open>KeyError\<close> at a node without attributes.
\<close>

fun nodes_tagged :: "node_tag \<Rightarrow> (node \<times> attrs) list \<Rightarrow> py_error + node list" where
  "nodes_tagged tg [] = Inr []"
| "nodes_tagged tg ((x, y) # rest) =
     (case tag y of
        None \<Rightarrow> Inl KeyError
      | Some t \<Rightarrow>
          (case nodes_tagged tg rest of
             Inl e \<Rightarrow> Inl e
           | Inr xs \<Rightarrow> Inr (if t = tg then x # xs else xs)))"

text \<open>\<^verbatim>\<open>i[:2]\<close> of a trailer node: its route and sequence.\<close>

fun route_seq :: "node \<Rightarrow> (int \<times> int) option" where
  "route_seq (Trl r q d) = Some (r, q)"
| "route_seq _ = None"

text \<open>
  The test of a same-trailer edge, on the attributes of an end node \<open>i\<close> and of a start
  node \<open>j\<close>: \<^verbatim>\<open>end_loc == start_loc and end < start\<close>. The source applies it to the
  nodes tagged \<^verbatim>\<open>trailer_end\<close> and \<^verbatim>\<open>trailer_start\<close> only, whose dictionaries hold
  these keys.
\<close>

fun same_trailer_ok :: "attrs \<Rightarrow> attrs \<Rightarrow> bool" where
  "same_trailer_ok (Trailer_end el e) (Trailer_start sl s) = (el = sl \<and> e < s)"
| "same_trailer_ok _ _ = False"

text \<open>\<^verbatim>\<open>Series.unique()\<close>: the distinct values in the order of their first appearance.\<close>

definition unique :: "'a list \<Rightarrow> 'a list" where
  "unique xs = rev (remdups (rev xs))"

subsection \<open>\<^verbatim>\<open>build_network_graph\<close>\<close>

definition start_node :: "'a stop_scheme \<Rightarrow> node" where
  "start_node x = Trl (Route x) (Sequence x) Trl_start"

definition end_node :: "'a stop_scheme \<Rightarrow> node" where
  "end_node x = Trl (Route x) (Sequence x) Trl_end"

text \<open>
  The attributes that line 59 and line 64 give to the two nodes of a row, when the two
  times are timestamps.
\<close>

definition start_attrs :: "leg \<Rightarrow> attrs" where
  "start_attrs x = Trailer_start (Zip x) (ArvDTTM x - td_hours preload_time)"

definition end_attrs :: "leg \<Rightarrow> attrs" where
  "end_attrs x = Trailer_end (DestZip x) (NxtArvDTTM x + td_hours drop_time)"

text \<open>
  The two functions that lines 59 and 64 apply to a row: the subtraction, or the
  addition, raises when its result is no timestamp, and the node is added otherwise.
\<close>

definition add_start_node :: "leg \<Rightarrow> graph \<Rightarrow> py_error + graph" where
  "add_start_node x G =
     (if ts_ok (ArvDTTM x - td_hours preload_time)
      then Inr (add_node (start_node x) (start_attrs x) G)
      else Inl OutOfBoundsDatetime)"

definition add_end_node :: "leg \<Rightarrow> graph \<Rightarrow> py_error + graph" where
  "add_end_node x G =
     (if ts_ok (NxtArvDTTM x + td_hours drop_time)
      then Inr (add_node (end_node x) (end_attrs x) G)
      else Inl OutOfBoundsDatetime)"

text \<open>
  \<^verbatim>\<open>drv_sched.apply(f, axis=1)\<close>, for a function \<open>f\<close> that changes the graph. On a frame
  with rows, \<open>f\<close> is called on the rows in their order and an exception of \<open>f\<close> ends
  the call. On a frame without rows, pandas calls \<open>f\<close> once on a row of missing values
  and drops any exception of that call: \<open>on_missing\<close> is what the call does to the
  graph. For lines 59 and 64 it does nothing, since the time arithmetic on a missing
  value raises before \<^verbatim>\<open>add_node\<close> is reached; for lines 76 and 79 it adds an edge
  between two nodes with missing keys, which \<^verbatim>\<open>add_edge\<close> creates without attributes.
\<close>

fun apply_rows :: "(leg \<Rightarrow> graph \<Rightarrow> py_error + graph) \<Rightarrow> leg list \<Rightarrow> graph \<Rightarrow> py_error + graph" where
  "apply_rows f [] G = Inr G"
| "apply_rows f (x # xs) G = (case f x G of Inl e \<Rightarrow> Inl e | Inr G' \<Rightarrow> apply_rows f xs G')"

definition apply_axis1 ::
  "(leg \<Rightarrow> graph \<Rightarrow> py_error + graph) \<Rightarrow> (graph \<Rightarrow> graph) \<Rightarrow> leg list \<Rightarrow> graph \<Rightarrow> py_error + graph" where
  "apply_axis1 f on_missing df G = (if df = [] then Inr (on_missing G) else apply_rows f df G)"

text \<open>The nodes (lines 42 to 67).\<close>

definition node_graph :: "leg list \<Rightarrow> py_error + graph" where
  "node_graph drv_sched =
     (let locations = unique (map Zip drv_sched);
          G = add_node Src Source empty_graph;
          G = add_node Snk Target G;
          G = fold (\<lambda>loc G. add_node (Loc loc Pool_in) Location (add_node (Loc loc Pool_out) Location G))
                locations G
      in case apply_axis1 add_start_node (\<lambda>G. G) drv_sched G of
           Inl e \<Rightarrow> Inl e
         | Inr G \<Rightarrow> apply_axis1 add_end_node (\<lambda>G. G) drv_sched G)"

text \<open>The edges between the terminals, the pools and the trailer nodes (lines 69 to 79).\<close>

definition pool_graph :: "leg list \<Rightarrow> py_error + graph" where
  "pool_graph drv_sched =
     (case node_graph drv_sched of
        Inl e \<Rightarrow> Inl e
      | Inr G \<Rightarrow>
          (let locations = unique (map Zip drv_sched);
               G = add_edges_from (map (\<lambda>loc. (Src, Loc loc Pool_out)) locations) src_pool G;
               G = add_edges_from (map (\<lambda>loc. (Loc loc Pool_in, Snk)) locations) sink_pool G
           in case apply_axis1
                     (\<lambda>x G. Inr (add_edge (Loc (Zip x) Pool_out, start_node x) trl_supp G))
                     (add_edge (Nan_loc Pool_out, Nan_trl Trl_start) trl_supp) drv_sched G of
                Inl e \<Rightarrow> Inl e
              | Inr G \<Rightarrow>
                  apply_axis1
                    (\<lambda>x G. Inr (add_edge (end_node x, Loc (DestZip x) Pool_in) trl_rtrn G))
                    (add_edge (Nan_trl Trl_end, Nan_loc Pool_in) trl_rtrn) drv_sched G))"

text \<open>The edges between trailer nodes, and the result (lines 81 to 95).\<close>

definition trailer_edges :: "graph \<Rightarrow> py_error + graph" where
  "trailer_edges G =
     (case nodes_tagged trailer_start (nodes G) of
        Inl e \<Rightarrow> Inl e
      | Inr trailer_start_nodes \<Rightarrow>
          (case nodes_tagged trailer_end (nodes G) of
             Inl e \<Rightarrow> Inl e
           | Inr trailer_end_nodes \<Rightarrow>
               (let G = add_edges_from
                          (concat (map (\<lambda>i. map (\<lambda>j. (i, j))
                             (filter (\<lambda>j. route_seq i = route_seq j) trailer_end_nodes))
                             trailer_start_nodes))
                          trailer_utilization G;
                    G = add_edges_from
                          (concat (map (\<lambda>i. map (\<lambda>j. (i, j))
                             (filter (\<lambda>j. same_trailer_ok (node_attrs G i) (node_attrs G j))
                                trailer_start_nodes))
                             trailer_end_nodes))
                          same_trailer G
                in Inr G)))"

text \<open>The function, on the frame that \<^verbatim>\<open>read_driver_schedule\<close> returned.\<close>

definition build_network_graph_from :: "leg list \<Rightarrow> py_error + graph" where
  "build_network_graph_from drv_sched =
     (case pool_graph drv_sched of Inl e \<Rightarrow> Inl e | Inr G \<Rightarrow> trailer_edges G)"

definition build_network_graph :: "stop list \<Rightarrow> py_error + graph" where
  "build_network_graph schedule_file = build_network_graph_from (read_driver_schedule schedule_file None)"

subsection \<open>The linear program\<close>

text \<open>
  The variables of the model are one flow variable for each edge (the dictionary
  \<^verbatim>\<open>flow_var\<close>, keyed by the edge) and the variable \<^verbatim>\<open>v\<close>, the flow value. A
  variable has a lower bound and, sometimes, an upper bound; \<^verbatim>\<open>continuous_var\<close>
  without \<^verbatim>\<open>lb\<close> takes the lower bound 0 and without \<^verbatim>\<open>ub\<close> has no upper bound.
\<close>

datatype var = Flow node node | Flow_value

type_synonym linexpr = "(real \<times> var) list"

text \<open>A constraint \<open>Equal l r\<close> is the equation \<^verbatim>\<open>l == r\<close> between two linear expressions.\<close>

datatype constr = Equal linexpr linexpr

record lp =
  variables :: "(var \<times> real \<times> real option) list"
  constraints :: "constr list"
  objective :: var

type_synonym solution = "var \<Rightarrow> real"

definition sum_vars :: "var list \<Rightarrow> linexpr" where
  "sum_vars xs = map (\<lambda>x. (1, x)) xs"

definition minus_expr :: "linexpr \<Rightarrow> linexpr \<Rightarrow> linexpr" where
  "minus_expr l r = l @ map (\<lambda>(c, x). (- c, x)) r"

definition eval_expr :: "solution \<Rightarrow> linexpr \<Rightarrow> real" where
  "eval_expr a e = sum_list (map (\<lambda>(c, x). c * a x) e)"

fun holds :: "solution \<Rightarrow> constr \<Rightarrow> bool" where
  "holds a (Equal l r) = (eval_expr a l = eval_expr a r)"

definition in_bounds :: "solution \<Rightarrow> var \<times> real \<times> real option \<Rightarrow> bool" where
  "in_bounds a d =
     (case d of (x, l, u) \<Rightarrow> l \<le> a x \<and> (case u of None \<Rightarrow> True | Some h \<Rightarrow> a x \<le> h))"

definition feasible :: "lp \<Rightarrow> solution \<Rightarrow> bool" where
  "feasible m a = (list_all (in_bounds a) (variables m) \<and> list_all (holds a) (constraints m))"

text \<open>
  What \<^verbatim>\<open>mdl.solve()\<close> promises for a model \<open>m\<close> that is minimised: a feasible
  assignment with the least objective value, or no solution when the model has no
  feasible assignment. The engine is not part of the program; a solver is any function
  from models to optional solutions, and this predicate is the contract it is held to.
\<close>

definition solves :: "(lp \<Rightarrow> solution option) \<Rightarrow> lp \<Rightarrow> bool" where
  "solves solver m =
     (case solver m of
        None \<Rightarrow> (\<forall>a. \<not> feasible m a)
      | Some a \<Rightarrow> feasible m a \<and> (\<forall>b. feasible m b \<longrightarrow> a (objective m) \<le> b (objective m)))"

subsection \<open>\<^verbatim>\<open>solve_min_flow_prob\<close>\<close>

text \<open>The flow variables (lines 104 to 109): free from 0 upwards, or fixed to 1.\<close>

definition flow_var_decl :: "graph \<Rightarrow> node \<times> node \<Rightarrow> var \<times> real \<times> real option" where
  "flow_var_decl G e =
     (if edge_tag_of G e \<in> Some ` {src_pool, sink_pool, trl_supp, trl_rtrn, same_trailer}
      then (Flow (fst e) (snd e), 0, None)
      else (Flow (fst e) (snd e), 1, Some 1))"

definition out_flows :: "graph \<Rightarrow> node \<Rightarrow> var list" where
  "out_flows G i = map (\<lambda>j. Flow i j) (neighbors G i)"

definition in_flows :: "graph \<Rightarrow> node \<Rightarrow> var list" where
  "in_flows G i = map (\<lambda>(m, n). Flow m n) (filter (\<lambda>(m, n). n = i) (edge_list G))"

text \<open>
  The constraints added at one node of the loop of lines 115 to 130. The tag of the
  node is looked up only when \<^verbatim>\<open>bal_pool\<close> is true, and every node of a graph that
  was built has a tag (\<open>build_Inr\<close> below). The pool-balance equation reads
  \<^verbatim>\<open>flow_var['s', i]\<close> and \<^verbatim>\<open>flow_var[(i[0], 'in'), 't']\<close>, which are there for every
  node tagged \<^verbatim>\<open>location\<close>, since both edges were added for every location;
  \<^verbatim>\<open>mdl.sum\<close> of one variable is that variable.
\<close>

definition pool_balance :: "int \<Rightarrow> constr" where
  "pool_balance loc =
     Equal (minus_expr [(1, Flow Src (Loc loc Pool_out))] [(1, Flow (Loc loc Pool_in) Snk)]) []"

definition conservation :: "graph \<Rightarrow> node \<Rightarrow> constr" where
  "conservation G i =
     (if i = Src then Equal (sum_vars (out_flows G i)) [(1, Flow_value)]
      else if i = Snk then Equal (sum_vars (in_flows G i)) [(1, Flow_value)]
      else Equal (minus_expr (sum_vars (out_flows G i)) (sum_vars (in_flows G i))) [])"

definition node_constraints :: "graph \<Rightarrow> bool \<Rightarrow> node \<Rightarrow> constr list" where
  "node_constraints G bal_pool i =
     conservation G i #
     (if i \<noteq> Src \<and> i \<noteq> Snk \<and> bal_pool \<and> tag (node_attrs G i) = Some location
      then (case i of Loc loc Pool_out \<Rightarrow> [pool_balance loc] | _ \<Rightarrow> [])
      else [])"

definition flow_model :: "graph \<Rightarrow> bool \<Rightarrow> lp" where
  "flow_model G bal_pool =
     \<lparr>variables = map (flow_var_decl G) (edge_list G) @ [(Flow_value, 0, None)],
      constraints = concat (map (node_constraints G bal_pool) (node_list G)),
      objective = Flow_value\<rparr>"

text \<open>
  What the function prints itself, and what it returns: \<^verbatim>\<open>None\<close> after the message
  that the problem has no solution, or the dictionary \<^verbatim>\<open>sol\<close> from edges to their
  flow after the message with the value of \<^verbatim>\<open>v\<close>. The source calls
  \<^verbatim>\<open>mdl.solve\<close> twice on the same model and uses the second answer; the solver of
  the embedding is a function, so the two answers are one.
\<close>

datatype message = No_solution | Minimum_trailers real

type_synonym flow_map = "((node \<times> node) \<times> real) list"

definition solve_min_flow_prob_from ::
  "(lp \<Rightarrow> solution option) \<Rightarrow> leg list \<Rightarrow> bool \<Rightarrow> py_error + (message \<times> flow_map option)" where
  "solve_min_flow_prob_from solver drv_sched bal_pool =
     (case build_network_graph_from drv_sched of
        Inl e \<Rightarrow> Inl e
      | Inr G \<Rightarrow>
          (case solver (flow_model G bal_pool) of
             None \<Rightarrow> Inr (No_solution, None)
           | Some a \<Rightarrow>
               Inr (Minimum_trailers (a Flow_value),
                    Some (map (\<lambda>(i, j). ((i, j), a (Flow i j))) (edge_list G)))))"

text \<open>
  The entry point. Its second parameter is optional in the source
  (\<^verbatim>\<open>bal_pool=False\<close>): \<open>None\<close> is a call that does not pass it.
\<close>

definition solve_min_flow_prob ::
  "(lp \<Rightarrow> solution option) \<Rightarrow> stop list \<Rightarrow> bool option \<Rightarrow> py_error + (message \<times> flow_map option)" where
  "solve_min_flow_prob solver schedule_file bal_pool =
     solve_min_flow_prob_from solver (read_driver_schedule schedule_file None)
       (case bal_pool of None \<Rightarrow> False | Some b \<Rightarrow> b)"

subsection \<open>Examples\<close>

definition mk_stop :: "int \<Rightarrow> int \<Rightarrow> int \<Rightarrow> int \<Rightarrow> stop" where
  "mk_stop r q z t = \<lparr>Route = r, Sequence = q, Zip = z, ArvDTTM = td_hours t\<rparr>"

text \<open>One route with three stops at one location, 100 hours apart.\<close>

definition one_route :: "stop list" where
  "one_route = [mk_stop 1 1 7 0, mk_stop 1 2 7 100, mk_stop 1 3 7 200]"

definition mk_leg :: "int \<Rightarrow> int \<Rightarrow> int \<Rightarrow> int \<Rightarrow> int \<Rightarrow> int \<Rightarrow> leg" where
  "mk_leg r q z t t' z' =
     \<lparr>Route = r, Sequence = q, Zip = z, ArvDTTM = td_hours t, NxtArvDTTM = td_hours t', DestZip = z'\<rparr>"

definition one_route_legs :: "leg list" where
  "one_route_legs = [mk_leg 1 1 7 0 100 7, mk_leg 1 2 7 100 200 7]"

definition one_route_graph :: graph where
  "one_route_graph =
     \<lparr>nodes =
        [(Src, Source), (Snk, Target), (Loc 7 Pool_out, Location), (Loc 7 Pool_in, Location),
         (Trl 1 1 Trl_start, Trailer_start 7 (- 21600)),
         (Trl 1 2 Trl_start, Trailer_start 7 338400),
         (Trl 1 1 Trl_end, Trailer_end 7 388800),
         (Trl 1 2 Trl_end, Trailer_end 7 748800)],
      edges =
        [((Src, Loc 7 Pool_out), src_pool),
         ((Loc 7 Pool_in, Snk), sink_pool),
         ((Loc 7 Pool_out, Trl 1 1 Trl_start), trl_supp),
         ((Loc 7 Pool_out, Trl 1 2 Trl_start), trl_supp),
         ((Trl 1 1 Trl_end, Loc 7 Pool_in), trl_rtrn),
         ((Trl 1 2 Trl_end, Loc 7 Pool_in), trl_rtrn),
         ((Trl 1 1 Trl_start, Trl 1 1 Trl_end), trailer_utilization),
         ((Trl 1 2 Trl_start, Trl 1 2 Trl_end), trailer_utilization)]\<rparr>"

text \<open>A flow for that graph: one trailer for each of the two legs.\<close>

fun one_route_flow :: solution where
  "one_route_flow Flow_value = 2"
| "one_route_flow (Flow Src j) = 2"
| "one_route_flow (Flow i Snk) = 2"
| "one_route_flow (Flow i j) = 1"

text \<open>A solving engine that gives no solution to a model with the pool balance of
  location 7, and the flow above to any other model.\<close>

definition balance_probe :: "lp \<Rightarrow> solution option" where
  "balance_probe m = (if pool_balance 7 \<in> set (constraints m) then None else Some one_route_flow)"

text \<open>Two routes of one leg each at one location; the second leg is ready 76 hours
  after the first has released its trailer.\<close>

definition two_routes :: "stop list" where
  "two_routes = [mk_stop 1 1 7 0, mk_stop 1 2 7 10, mk_stop 2 1 7 100, mk_stop 2 2 7 110]"

definition two_routes_legs :: "leg list" where
  "two_routes_legs = [mk_leg 1 1 7 0 10 7, mk_leg 2 1 7 100 110 7]"

definition two_routes_graph :: graph where
  "two_routes_graph =
     \<lparr>nodes =
        [(Src, Source), (Snk, Target), (Loc 7 Pool_out, Location), (Loc 7 Pool_in, Location),
         (Trl 1 1 Trl_start, Trailer_start 7 (- 21600)),
         (Trl 2 1 Trl_start, Trailer_start 7 338400),
         (Trl 1 1 Trl_end, Trailer_end 7 64800),
         (Trl 2 1 Trl_end, Trailer_end 7 424800)],
      edges =
        [((Src, Loc 7 Pool_out), src_pool),
         ((Loc 7 Pool_in, Snk), sink_pool),
         ((Loc 7 Pool_out, Trl 1 1 Trl_start), trl_supp),
         ((Loc 7 Pool_out, Trl 2 1 Trl_start), trl_supp),
         ((Trl 1 1 Trl_end, Loc 7 Pool_in), trl_rtrn),
         ((Trl 2 1 Trl_end, Loc 7 Pool_in), trl_rtrn),
         ((Trl 1 1 Trl_start, Trl 1 1 Trl_end), trailer_utilization),
         ((Trl 2 1 Trl_start, Trl 2 1 Trl_end), trailer_utilization),
         ((Trl 1 1 Trl_end, Trl 2 1 Trl_start), same_trailer)]\<rparr>"

text \<open>One route from location 5 to location 7 and on to location 7: a trailer leaves
  the pool of location 5 and none comes back to it.\<close>

definition drained :: "stop list" where
  "drained = [mk_stop 1 1 5 0, mk_stop 1 2 7 100, mk_stop 1 3 7 200]"

definition drained_legs :: "leg list" where
  "drained_legs = [mk_leg 1 1 5 0 100 7, mk_leg 1 2 7 100 200 7]"

definition drained_graph :: graph where
  "drained_graph =
     \<lparr>nodes =
        [(Src, Source), (Snk, Target), (Loc 5 Pool_out, Location), (Loc 5 Pool_in, Location),
         (Loc 7 Pool_out, Location), (Loc 7 Pool_in, Location),
         (Trl 1 1 Trl_start, Trailer_start 5 (- 21600)),
         (Trl 1 2 Trl_start, Trailer_start 7 338400),
         (Trl 1 1 Trl_end, Trailer_end 7 388800),
         (Trl 1 2 Trl_end, Trailer_end 7 748800)],
      edges =
        [((Src, Loc 5 Pool_out), src_pool),
         ((Src, Loc 7 Pool_out), src_pool),
         ((Loc 5 Pool_in, Snk), sink_pool),
         ((Loc 7 Pool_in, Snk), sink_pool),
         ((Loc 5 Pool_out, Trl 1 1 Trl_start), trl_supp),
         ((Loc 7 Pool_out, Trl 1 2 Trl_start), trl_supp),
         ((Trl 1 1 Trl_end, Loc 7 Pool_in), trl_rtrn),
         ((Trl 1 2 Trl_end, Loc 7 Pool_in), trl_rtrn),
         ((Trl 1 1 Trl_start, Trl 1 1 Trl_end), trailer_utilization),
         ((Trl 1 2 Trl_start, Trl 1 2 Trl_end), trailer_utilization)]\<rparr>"

text \<open>A sheet in which two rows of route 1 carry the sequence number 1.\<close>

definition repeated :: "stop list" where
  "repeated = [mk_stop 1 1 7 0, mk_stop 1 1 7 10, mk_stop 1 2 7 20]"

definition repeated_legs :: "leg list" where
  "repeated_legs = [mk_leg 1 1 7 0 10 7, mk_leg 1 1 7 10 20 7]"

definition repeated_graph :: graph where
  "repeated_graph =
     \<lparr>nodes =
        [(Src, Source), (Snk, Target), (Loc 7 Pool_out, Location), (Loc 7 Pool_in, Location),
         (Trl 1 1 Trl_start, Trailer_start 7 14400),
         (Trl 1 1 Trl_end, Trailer_end 7 100800)],
      edges =
        [((Src, Loc 7 Pool_out), src_pool),
         ((Loc 7 Pool_in, Snk), sink_pool),
         ((Loc 7 Pool_out, Trl 1 1 Trl_start), trl_supp),
         ((Trl 1 1 Trl_end, Loc 7 Pool_in), trl_rtrn),
         ((Trl 1 1 Trl_start, Trl 1 1 Trl_end), trailer_utilization)]\<rparr>"

text \<open>A sheet in which two rows of route 1 carry the sequence number 1 and a route 2
  starts, at hour 30, where route 1 ends.\<close>

definition masked :: "stop list" where
  "masked = [mk_stop 1 1 7 0, mk_stop 1 1 7 10, mk_stop 1 2 7 20, mk_stop 2 1 7 30, mk_stop 2 2 7 40]"

definition masked_legs :: "leg list" where
  "masked_legs = [mk_leg 1 1 7 0 10 7, mk_leg 1 1 7 10 20 7, mk_leg 2 1 7 30 40 7]"

definition masked_graph :: graph where
  "masked_graph =
     \<lparr>nodes =
        [(Src, Source), (Snk, Target), (Loc 7 Pool_out, Location), (Loc 7 Pool_in, Location),
         (Trl 1 1 Trl_start, Trailer_start 7 14400),
         (Trl 2 1 Trl_start, Trailer_start 7 86400),
         (Trl 1 1 Trl_end, Trailer_end 7 100800),
         (Trl 2 1 Trl_end, Trailer_end 7 172800)],
      edges =
        [((Src, Loc 7 Pool_out), src_pool),
         ((Loc 7 Pool_in, Snk), sink_pool),
         ((Loc 7 Pool_out, Trl 1 1 Trl_start), trl_supp),
         ((Loc 7 Pool_out, Trl 2 1 Trl_start), trl_supp),
         ((Trl 1 1 Trl_end, Loc 7 Pool_in), trl_rtrn),
         ((Trl 2 1 Trl_end, Loc 7 Pool_in), trl_rtrn),
         ((Trl 1 1 Trl_start, Trl 1 1 Trl_end), trailer_utilization),
         ((Trl 2 1 Trl_start, Trl 2 1 Trl_end), trailer_utilization)]\<rparr>"

text \<open>A route whose second stop is reached 100 hours before its first.\<close>

definition backwards :: "stop list" where
  "backwards = [mk_stop 1 1 7 100, mk_stop 1 2 7 0]"

definition backwards_legs :: "leg list" where
  "backwards_legs = [mk_leg 1 1 7 100 0 7]"

definition backwards_graph :: graph where
  "backwards_graph =
     \<lparr>nodes =
        [(Src, Source), (Snk, Target), (Loc 7 Pool_out, Location), (Loc 7 Pool_in, Location),
         (Trl 1 1 Trl_start, Trailer_start 7 338400),
         (Trl 1 1 Trl_end, Trailer_end 7 28800)],
      edges =
        [((Src, Loc 7 Pool_out), src_pool),
         ((Loc 7 Pool_in, Snk), sink_pool),
         ((Loc 7 Pool_out, Trl 1 1 Trl_start), trl_supp),
         ((Trl 1 1 Trl_end, Loc 7 Pool_in), trl_rtrn),
         ((Trl 1 1 Trl_start, Trl 1 1 Trl_end), trailer_utilization),
         ((Trl 1 1 Trl_end, Trl 1 1 Trl_start), same_trailer)]\<rparr>"

subsection \<open>Auxiliary notions for the proofs\<close>

text \<open>
  The graph of lines 42 to 79 for a frame with rows whose times are all timestamps:
  no call raises, and the functions are folded over the rows.
\<close>

definition legs_in_range :: "leg list \<Rightarrow> bool" where
  "legs_in_range ls =
     (list_all (\<lambda>x. ts_ok (ArvDTTM x - td_hours preload_time)) ls
      \<and> list_all (\<lambda>x. ts_ok (NxtArvDTTM x + td_hours drop_time)) ls)"

definition plain_node_graph :: "leg list \<Rightarrow> graph" where
  "plain_node_graph drv_sched =
     (let locations = unique (map Zip drv_sched);
          G = add_node Src Source empty_graph;
          G = add_node Snk Target G;
          G = fold (\<lambda>loc G. add_node (Loc loc Pool_in) Location (add_node (Loc loc Pool_out) Location G))
                locations G;
          G = fold (\<lambda>x. add_node (start_node x) (start_attrs x)) drv_sched G;
          G = fold (\<lambda>x. add_node (end_node x) (end_attrs x)) drv_sched G
      in G)"

definition plain_pool_graph :: "leg list \<Rightarrow> graph" where
  "plain_pool_graph drv_sched =
     (let locations = unique (map Zip drv_sched);
          G = plain_node_graph drv_sched;
          G = add_edges_from (map (\<lambda>loc. (Src, Loc loc Pool_out)) locations) src_pool G;
          G = add_edges_from (map (\<lambda>loc. (Loc loc Pool_in, Snk)) locations) sink_pool G;
          G = fold (\<lambda>x. add_edge (Loc (Zip x) Pool_out, start_node x) trl_supp) drv_sched G;
          G = fold (\<lambda>x. add_edge (end_node x, Loc (DestZip x) Pool_in) trl_rtrn) drv_sched G
      in G)"

text \<open>The last row of the frame with a given route and sequence: the row whose
  attributes its two trailer nodes end up with.\<close>

definition last_leg :: "leg list \<Rightarrow> int \<times> int \<Rightarrow> leg option" where
  "last_leg ls k = find (\<lambda>l. (Route l, Sequence l) = k) (rev ls)"

text \<open>The location of an out-pool node.\<close>

fun pool_out_of :: "node \<Rightarrow> int option" where
  "pool_out_of (Loc z Pool_out) = Some z"
| "pool_out_of _ = None"

text \<open>The edges of a graph between nodes other than the source and the sink.\<close>

definition inner_edges :: "graph \<Rightarrow> (node \<times> node) set" where
  "inner_edges G = {(i, j). (i, j) \<in> set (edge_list G) \<and> i \<noteq> Src \<and> i \<noteq> Snk \<and> j \<noteq> Src \<and> j \<noteq> Snk}"

text \<open>A rank of the nodes, in the lexicographic order of triples: out-pools first, then
  the trailer nodes by their time, a start node before an end node of the same time,
  in-pools last.\<close>

definition node_rank :: "graph \<Rightarrow> node \<Rightarrow> nat \<times> int \<times> nat" where
  "node_rank G n =
     (case n of
        Loc z Pool_out \<Rightarrow> (0, 0, 0)
      | Loc z Pool_in \<Rightarrow> (2, 0, 0)
      | Trl r q d \<Rightarrow>
          (case node_attrs G n of
             Trailer_start l t \<Rightarrow> (1, t, 0)
           | Trailer_end l t \<Rightarrow> (1, t, 1)
           | _ \<Rightarrow> (1, 0, 0))
      | _ \<Rightarrow> (0, 0, 0))"

text \<open>The graph of two legs \<open>la\<close> and \<open>lb\<close> that start and end at one location \<open>z\<close>,
  with a same-trailer edge from the first to the second.\<close>

definition chain_graph :: "int \<Rightarrow> leg \<Rightarrow> leg \<Rightarrow> graph" where
  "chain_graph z la lb =
     \<lparr>nodes =
        [(Src, Source), (Snk, Target), (Loc z Pool_out, Location), (Loc z Pool_in, Location),
         (start_node la, start_attrs la), (start_node lb, start_attrs lb),
         (end_node la, end_attrs la), (end_node lb, end_attrs lb)],
      edges =
        [((Src, Loc z Pool_out), src_pool),
         ((Loc z Pool_in, Snk), sink_pool),
         ((Loc z Pool_out, start_node la), trl_supp),
         ((Loc z Pool_out, start_node lb), trl_supp),
         ((end_node la, Loc z Pool_in), trl_rtrn),
         ((end_node lb, Loc z Pool_in), trl_rtrn),
         ((start_node la, end_node la), trailer_utilization),
         ((start_node lb, end_node lb), trailer_utilization),
         ((end_node la, start_node lb), same_trailer)]\<rparr>"

text \<open>A flow for the graph of two legs at one location \<open>z\<close> that one trailer can serve:
  the trailer is taken from the pool for the leg that starts at \<open>sa\<close>, goes on from the
  end \<open>ea\<close> of that leg to the second leg, and returns to the pool after it.\<close>

definition chain_flow :: "int \<Rightarrow> node \<Rightarrow> node \<Rightarrow> node \<Rightarrow> solution" where
  "chain_flow z sa ea sb x =
     (if x = Flow (Loc z Pool_out) sb \<or> x = Flow ea (Loc z Pool_in) then 0 else 1)"

section \<open>Properties of the graph operations\<close>

subsection \<open>Graph operations as maps\<close>

lemma map_of_add_node [simp]: "map_of (nodes (add_node n a G)) = (map_of (nodes G))(n \<mapsto> a)"
  by (simp add: add_node_def update_conv')

lemma edges_add_node [simp]: "edges (add_node n a G) = edges G"
  by (simp add: add_node_def)

lemma distinct_add_node: "distinct (map fst (nodes G)) \<Longrightarrow> distinct (map fst (nodes (add_node n a G)))"
  by (simp add: add_node_def distinct_update)

lemma map_of_touch_node:
  "map_of (nodes (touch_node n G)) k =
     (case map_of (nodes G) k of Some a \<Rightarrow> Some a | None \<Rightarrow> if k = n then Some No_attrs else None)"
proof (cases "n \<in> fst ` set (nodes G)")
  case True
  then have "map_of (nodes G) n \<noteq> None" by (simp add: map_of_eq_None_iff)
  with True show ?thesis by (auto simp: touch_node_def split: option.splits)
next
  case False
  then have "map_of (nodes G) n = None" by (simp add: map_of_eq_None_iff)
  with False show ?thesis by (auto simp: touch_node_def map_add_def split: option.splits)
qed

lemma edges_touch_node [simp]: "edges (touch_node n G) = edges G"
  by (simp add: touch_node_def)

lemma distinct_touch_node:
  "distinct (map fst (nodes G)) \<Longrightarrow> distinct (map fst (nodes (touch_node n G)))"
  by (auto simp: touch_node_def)

lemma touch_node_known: "n \<in> fst ` set (nodes G) \<Longrightarrow> touch_node n G = G"
  by (simp add: touch_node_def)

lemma map_of_edges_add_edge [simp]:
  "map_of (edges (add_edge e tg G)) = (map_of (edges G))(e \<mapsto> tg)"
  by (simp add: add_edge_def Let_def update_conv')

lemma map_of_nodes_add_edge:
  "map_of (nodes (add_edge e tg G)) k =
     (case map_of (nodes G) k of
        Some a \<Rightarrow> Some a
      | None \<Rightarrow> if k = fst e \<or> k = snd e then Some No_attrs else None)"
  by (auto simp: add_edge_def Let_def map_of_touch_node split: option.splits)

lemma distinct_nodes_add_edge:
  "distinct (map fst (nodes G)) \<Longrightarrow> distinct (map fst (nodes (add_edge e tg G)))"
  by (simp add: add_edge_def Let_def distinct_touch_node)

lemma distinct_edges_add_edge:
  "distinct (map fst (edges G)) \<Longrightarrow> distinct (map fst (edges (add_edge e tg G)))"
  by (simp add: add_edge_def Let_def distinct_update)

lemma distinct_edges_add_node:
  "distinct (map fst (edges G)) \<Longrightarrow> distinct (map fst (edges (add_node n a G)))"
  by simp

lemma nodes_add_edge_known:
  "fst e \<in> fst ` set (nodes G) \<Longrightarrow> snd e \<in> fst ` set (nodes G) \<Longrightarrow> nodes (add_edge e tg G) = nodes G"
  by (simp add: add_edge_def Let_def touch_node_known)

subsection \<open>Folds\<close>

lemma fold_add_node_nodes:
  "map_of (nodes (fold (\<lambda>x. add_node (f x) (g x)) xs G)) =
     map_of (nodes G) ++ map_of (rev (map (\<lambda>x. (f x, g x)) xs))"
proof (induction xs arbitrary: G)
  case Nil
  then show ?case by simp
next
  case (Cons x xs)
  have "(map_of (nodes G))(f x \<mapsto> g x) ++ m = map_of (nodes G) ++ ([f x \<mapsto> g x] ++ m)" for m
    by (simp add: map_add_def fun_eq_iff split: option.splits)
  then show ?case unfolding fold_simps rev.simps list.map map_of_append
    by (simp only: Cons.IH map_of_add_node map_of.simps fst_conv snd_conv)
qed

lemma fold_add_node_edges [simp]:
  "edges (fold (\<lambda>x. add_node (f x) (g x)) xs G) = edges G"
  by (induction xs arbitrary: G) simp_all

lemma fold_add_node_distinct:
  "distinct (map fst (nodes G)) \<Longrightarrow> distinct (map fst (nodes (fold (\<lambda>x. add_node (f x) (g x)) xs G)))"
  by (induction xs arbitrary: G) (simp_all add: distinct_add_node)

lemma fold_add_edge_edges:
  "map_of (edges (fold (\<lambda>x. add_edge (f x) tg) xs G)) k =
     (if k \<in> f ` set xs then Some tg else map_of (edges G) k)"
  by (induction xs arbitrary: G) auto

lemma fold_add_edge_nodes:
  "map_of (nodes (fold (\<lambda>x. add_edge (f x) tg) xs G)) k =
     (case map_of (nodes G) k of
        Some a \<Rightarrow> Some a
      | None \<Rightarrow> if k \<in> (fst \<circ> f) ` set xs \<union> (snd \<circ> f) ` set xs then Some No_attrs else None)"
  by (induction xs arbitrary: G) (auto simp: map_of_nodes_add_edge split: option.splits)

lemma fold_add_edge_distinct_nodes:
  "distinct (map fst (nodes G)) \<Longrightarrow> distinct (map fst (nodes (fold (\<lambda>x. add_edge (f x) tg) xs G)))"
  by (induction xs arbitrary: G) (simp_all add: distinct_nodes_add_edge)

lemma fold_add_edge_distinct_edges:
  "distinct (map fst (edges G)) \<Longrightarrow> distinct (map fst (edges (fold (\<lambda>x. add_edge (f x) tg) xs G)))"
  by (induction xs arbitrary: G) (simp_all add: distinct_edges_add_edge)

lemma fold_add_edge_nodes_known:
  "(\<And>x. x \<in> set xs \<Longrightarrow> fst (f x) \<in> fst ` set (nodes G) \<and> snd (f x) \<in> fst ` set (nodes G)) \<Longrightarrow>
   nodes (fold (\<lambda>x. add_edge (f x) tg) xs G) = nodes G"
  by (induction xs arbitrary: G) (simp_all add: nodes_add_edge_known)

section \<open>The nodes and edges of the built graph\<close>

lemma map_of_map_find:
  "map_of (map (\<lambda>x. (f x, g x)) xs) k = map_option g (find (\<lambda>x. f x = k) xs)"
  by (induction xs) auto

lemma map_of_const_map:
  "map_of (map (\<lambda>x. (f x, c)) xs) k = (if k \<in> f ` set xs then Some c else None)"
  by (induction xs) auto

lemma set_unique [simp]: "set (unique xs) = set xs"
  by (simp add: unique_def)

lemma distinct_unique [simp]: "distinct (unique xs)"
  by (simp add: unique_def)

lemma fold_location_nodes:
  "fold (\<lambda>loc G. add_node (Loc loc Pool_in) Location (add_node (Loc loc Pool_out) Location G)) locs G =
   fold (\<lambda>n. add_node n Location) (concat (map (\<lambda>loc. [Loc loc Pool_out, Loc loc Pool_in]) locs)) G"
  by (induction locs arbitrary: G) simp_all

lemma node_graph_map:
  "map_of (nodes (plain_node_graph ls)) k =
     (case k of
        Src \<Rightarrow> Some Source
      | Snk \<Rightarrow> Some Target
      | Loc z d \<Rightarrow> if z \<in> Zip ` set ls then Some Location else None
      | Trl r q Trl_start \<Rightarrow> map_option start_attrs (last_leg ls (r, q))
      | Trl r q Trl_end \<Rightarrow> map_option end_attrs (last_leg ls (r, q))
      | Nan_loc d \<Rightarrow> None
      | Nan_trl d \<Rightarrow> None)"
proof -
  have st: "map_of (rev (map (\<lambda>x. (start_node x, start_attrs x)) ls)) k =
      (case k of Trl r q Trl_start \<Rightarrow> map_option start_attrs (last_leg ls (r, q)) | _ \<Rightarrow> None)" for k
    unfolding rev_map map_of_map_find last_leg_def
    by (auto simp: start_node_def find_None_iff split: node.splits trl_side.splits intro!: arg_cong[where f="map_option start_attrs"] find_cong)
  have en: "map_of (rev (map (\<lambda>x. (end_node x, end_attrs x)) ls)) k =
      (case k of Trl r q Trl_end \<Rightarrow> map_option end_attrs (last_leg ls (r, q)) | _ \<Rightarrow> None)" for k
    unfolding rev_map map_of_map_find last_leg_def
    by (auto simp: end_node_def find_None_iff split: node.splits trl_side.splits intro!: arg_cong[where f="map_option end_attrs"] find_cong)
  have lo: "map_of (rev (map (\<lambda>n. (n, Location)) (concat (map (\<lambda>loc. [Loc loc Pool_out, Loc loc Pool_in]) (unique (map Zip ls)))))) k =
      (case k of Loc z d \<Rightarrow> if z \<in> Zip ` set ls then Some Location else None | _ \<Rightarrow> None)" for k
    unfolding rev_map map_of_const_map
    by (cases k) (auto simp: image_iff intro: pool_side.exhaust)
  show ?thesis
    unfolding plain_node_graph_def Let_def fold_location_nodes
    unfolding fold_add_node_nodes
    by (simp add: map_add_def st en lo empty_graph_def split: node.splits trl_side.splits option.splits)
qed

lemma node_graph_edges [simp]: "edges (plain_node_graph ls) = []"
  by (simp add: plain_node_graph_def Let_def fold_location_nodes empty_graph_def)

lemma node_graph_distinct: "distinct (map fst (nodes (plain_node_graph ls)))"
  unfolding plain_node_graph_def Let_def fold_location_nodes
  by (intro fold_add_node_distinct distinct_add_node) (simp add: empty_graph_def)

lemma add_edges_from_map:
  "add_edges_from (map h xs) tg G = fold (\<lambda>x. add_edge (h x) tg) xs G"
  by (simp add: add_edges_from_def fold_map comp_def)

lemma last_leg_None: "last_leg ls k = None \<longleftrightarrow> k \<notin> (\<lambda>l. (Route l, Sequence l)) ` set ls"
  by (auto simp: last_leg_def find_None_iff)

lemma last_leg_Some: "last_leg ls k = Some l \<Longrightarrow> l \<in> set ls \<and> (Route l, Sequence l) = k"
proof -
  assume "last_leg ls k = Some l"
  then have f: "find (\<lambda>l. (Route l, Sequence l) = k) (rev ls) = Some l" by (simp add: last_leg_def)
  then obtain i where "i < length (rev ls)" "(Route l, Sequence l) = k" "l = rev ls ! i"
    unfolding find_Some_iff by blast
  then have "l \<in> set (rev ls)" using nth_mem by blast
  then show ?thesis using \<open>(Route l, Sequence l) = k\<close> by simp
qed

lemma last_leg_distinct:
  "distinct (map (\<lambda>l. (Route l, Sequence l)) ls) \<Longrightarrow> l \<in> set ls \<Longrightarrow>
   last_leg ls (Route l, Sequence l) = Some l"
proof -
  assume d: "distinct (map (\<lambda>l. (Route l, Sequence l)) ls)" and l: "l \<in> set ls"
  then have "last_leg ls (Route l, Sequence l) \<noteq> None" by (auto simp: last_leg_None)
  then obtain l' where l': "last_leg ls (Route l, Sequence l) = Some l'" by auto
  from last_leg_Some[OF this] have "l' \<in> set ls" "(Route l', Sequence l') = (Route l, Sequence l)" by auto
  with d l have "l' = l" by (meson distinct_map inj_onD)
  with l' show ?thesis by simp
qed

lemma pool_graph_nodes:
  "map_of (nodes (plain_pool_graph ls)) k =
     (case map_of (nodes (plain_node_graph ls)) k of
        Some a \<Rightarrow> Some a
      | None \<Rightarrow> if k \<in> (\<lambda>x. Loc (DestZip x) Pool_in) ` set ls then Some No_attrs else None)"
  unfolding plain_pool_graph_def Let_def add_edges_from_map
  by (cases k)
     (auto simp: fold_add_edge_nodes node_graph_map start_node_def end_node_def last_leg_None image_iff
           split: option.splits trl_side.splits)

lemma pool_graph_edges:
  "map_of (edges (plain_pool_graph ls)) e =
     (if e \<in> (\<lambda>x. (end_node x, Loc (DestZip x) Pool_in)) ` set ls then Some trl_rtrn
      else if e \<in> (\<lambda>x. (Loc (Zip x) Pool_out, start_node x)) ` set ls then Some trl_supp
      else if e \<in> (\<lambda>x. (Loc (Zip x) Pool_in, Snk)) ` set ls then Some sink_pool
      else if e \<in> (\<lambda>x. (Src, Loc (Zip x) Pool_out)) ` set ls then Some src_pool
      else None)"
  unfolding plain_pool_graph_def Let_def add_edges_from_map
  by (simp add: fold_add_edge_edges image_image)

lemma pool_graph_distinct_nodes: "distinct (map fst (nodes (plain_pool_graph ls)))"
  unfolding plain_pool_graph_def Let_def add_edges_from_map
  by (intro fold_add_edge_distinct_nodes node_graph_distinct)

lemma pool_graph_distinct_edges: "distinct (map fst (edges (plain_pool_graph ls)))"
  unfolding plain_pool_graph_def Let_def add_edges_from_map
  by (intro fold_add_edge_distinct_edges) simp

lemma nodes_tagged_Inr:
  "nodes_tagged tg ns = Inr xs \<Longrightarrow>
   (\<forall>(n, a) \<in> set ns. tag a \<noteq> None) \<and> xs = map fst (filter (\<lambda>(n, a). tag a = Some tg) ns)"
  by (induction ns arbitrary: xs) (auto split: option.splits sum.splits if_splits)

lemma nodes_tagged_total:
  "(\<forall>(n, a) \<in> set ns. tag a \<noteq> None) \<Longrightarrow>
   nodes_tagged tg ns = Inr (map fst (filter (\<lambda>(n, a). tag a = Some tg) ns))"
  by (induction ns) (auto split: option.splits sum.splits if_splits)

lemma nodes_tagged_Inl:
  "nodes_tagged tg ns = Inl e \<Longrightarrow> \<exists>(n, a) \<in> set ns. tag a = None"
  by (induction ns) (auto split: option.splits sum.splits if_splits)

lemma add_edges_from_edges:
  "map_of (edges (add_edges_from es tg G)) e = (if e \<in> set es then Some tg else map_of (edges G) e)"
  using fold_add_edge_edges[of "\<lambda>e. e" tg es G e] by (simp add: add_edges_from_def)

lemma add_edges_from_nodes_known:
  "(\<And>e. e \<in> set es \<Longrightarrow> fst e \<in> fst ` set (nodes G) \<and> snd e \<in> fst ` set (nodes G)) \<Longrightarrow>
   nodes (add_edges_from es tg G) = nodes G"
  using fold_add_edge_nodes_known[of es "\<lambda>e. e" G tg] by (simp add: add_edges_from_def)

lemma add_edges_from_distinct_edges:
  "distinct (map fst (edges G)) \<Longrightarrow> distinct (map fst (edges (add_edges_from es tg G)))"
  using fold_add_edge_distinct_edges[of G "\<lambda>e. e" tg es] by (simp add: add_edges_from_def)

lemma node_attrs_same_nodes: "nodes G' = nodes G \<Longrightarrow> node_attrs G' = node_attrs G"
  by (simp add: node_attrs_def fun_eq_iff)


lemma pool_graph_trl_start:
  "map_of (nodes (plain_pool_graph ls)) (Trl r q Trl_start) = map_option start_attrs (last_leg ls (r, q))"
  by (cases "last_leg ls (r, q)") (auto simp: pool_graph_nodes node_graph_map)

lemma pool_graph_trl_end:
  "map_of (nodes (plain_pool_graph ls)) (Trl r q Trl_end) = map_option end_attrs (last_leg ls (r, q))"
  by (cases "last_leg ls (r, q)") (auto simp: pool_graph_nodes node_graph_map)

lemma pool_graph_terminals:
  "map_of (nodes (plain_pool_graph ls)) Src = Some Source" "map_of (nodes (plain_pool_graph ls)) Snk = Some Target"
  by (simp_all add: pool_graph_nodes node_graph_map)

lemma pool_graph_loc:
  "map_of (nodes (plain_pool_graph ls)) (Loc z d) =
     (if z \<in> Zip ` set ls then Some Location
      else if d = Pool_in \<and> z \<in> DestZip ` set ls then Some No_attrs else None)"
  by (auto simp: pool_graph_nodes node_graph_map)

lemma pool_graph_nan:
  "map_of (nodes (plain_pool_graph ls)) (Nan_loc d) = None"
  "map_of (nodes (plain_pool_graph ls)) (Nan_trl e) = None"
  by (auto simp: pool_graph_nodes node_graph_map)

lemma last_leg_exists: "l \<in> set ls \<Longrightarrow> \<exists>l'. last_leg ls (Route l, Sequence l) = Some l'"
  using last_leg_None[of ls "(Route l, Sequence l)"] by (cases "last_leg ls (Route l, Sequence l)") auto

lemma last_leg_unique:
  assumes "l \<in> set ls" and "\<forall>k \<in> set ls. Route k = Route l \<and> Sequence k = Sequence l \<longrightarrow> k = l"
  shows "last_leg ls (Route l, Sequence l) = Some l"
proof -
  from last_leg_exists[OF assms(1)] obtain l' where l': "last_leg ls (Route l, Sequence l) = Some l'"
    by blast
  from last_leg_Some[OF l'] have "l' \<in> set ls" "Route l' = Route l" "Sequence l' = Sequence l"
    by simp_all
  with assms(2) have "l' = l" by blast
  with l' show ?thesis by simp
qed

lemma in_nodes_iff:
  "distinct (map fst ns) \<Longrightarrow>
   n \<in> set (map fst (filter (\<lambda>(n, a). P a) ns)) \<longleftrightarrow> (\<exists>a. map_of ns n = Some a \<and> P a)"
  by (auto simp: image_iff)

text \<open>The trailer nodes that the two comprehensions of lines 82 and 83 collect.\<close>

lemma tagged_start_nodes:
  "set (map fst (filter (\<lambda>(n, a). tag a = Some trailer_start) (nodes (plain_pool_graph ls)))) = start_node ` set ls"
proof -
  have "(\<exists>a. map_of (nodes (plain_pool_graph ls)) n = Some a \<and> tag a = Some trailer_start)
      \<longleftrightarrow> n \<in> start_node ` set ls" for n
  proof (cases n)
    case (Trl r q d)
    show ?thesis
    proof (cases d)
      case Trl_start
      show ?thesis
      proof
        assume "\<exists>a. map_of (nodes (plain_pool_graph ls)) n = Some a \<and> tag a = Some trailer_start"
        then obtain l where "last_leg ls (r, q) = Some l"
          unfolding Trl Trl_start pool_graph_trl_start by auto
        from last_leg_Some[OF this] show "n \<in> start_node ` set ls"
          unfolding Trl Trl_start by (auto simp: start_node_def image_iff)
      next
        assume "n \<in> start_node ` set ls"
        then obtain l where "l \<in> set ls" "n = start_node l" by auto
        with last_leg_exists[of l ls] show "\<exists>a. map_of (nodes (plain_pool_graph ls)) n = Some a \<and> tag a = Some trailer_start"
          by (auto simp: start_node_def pool_graph_trl_start start_attrs_def)
      qed
    next
      case Trl_end
      show ?thesis
        unfolding Trl Trl_end pool_graph_trl_end
        by (cases "last_leg ls (r, q)") (auto simp: end_attrs_def start_node_def)
    qed
  qed (auto simp: pool_graph_terminals pool_graph_loc pool_graph_nan start_node_def split: if_splits)
  then show ?thesis
    using in_nodes_iff[OF pool_graph_distinct_nodes, of _ "\<lambda>a. tag a = Some trailer_start" ls]
    by blast
qed

lemma tagged_end_nodes:
  "set (map fst (filter (\<lambda>(n, a). tag a = Some trailer_end) (nodes (plain_pool_graph ls)))) = end_node ` set ls"
proof -
  have "(\<exists>a. map_of (nodes (plain_pool_graph ls)) n = Some a \<and> tag a = Some trailer_end)
      \<longleftrightarrow> n \<in> end_node ` set ls" for n
  proof (cases n)
    case (Trl r q d)
    show ?thesis
    proof (cases d)
      case Trl_end
      show ?thesis
      proof
        assume "\<exists>a. map_of (nodes (plain_pool_graph ls)) n = Some a \<and> tag a = Some trailer_end"
        then obtain l where "last_leg ls (r, q) = Some l"
          unfolding Trl Trl_end pool_graph_trl_end by auto
        from last_leg_Some[OF this] show "n \<in> end_node ` set ls"
          unfolding Trl Trl_end by (auto simp: end_node_def image_iff)
      next
        assume "n \<in> end_node ` set ls"
        then obtain l where "l \<in> set ls" "n = end_node l" by auto
        with last_leg_exists[of l ls] show "\<exists>a. map_of (nodes (plain_pool_graph ls)) n = Some a \<and> tag a = Some trailer_end"
          by (auto simp: end_node_def pool_graph_trl_end end_attrs_def)
      qed
    next
      case Trl_start
      show ?thesis
        unfolding Trl Trl_start pool_graph_trl_start
        by (cases "last_leg ls (r, q)") (auto simp: start_attrs_def end_node_def)
    qed
  qed (auto simp: pool_graph_terminals pool_graph_loc pool_graph_nan end_node_def split: if_splits)
  then show ?thesis
    using in_nodes_iff[OF pool_graph_distinct_nodes, of _ "\<lambda>a. tag a = Some trailer_end" ls]
    by blast
qed

lemma trailer_nodes_known:
  assumes "l \<in> set ls"
  shows "start_node l \<in> fst ` set (nodes (plain_pool_graph ls))"
    and "end_node l \<in> fst ` set (nodes (plain_pool_graph ls))"
proof -
  from last_leg_exists[OF assms] obtain l' where l': "last_leg ls (Route l, Sequence l) = Some l'" by blast
  have "map_of (nodes (plain_pool_graph ls)) (start_node l) \<noteq> None"
    by (simp add: start_node_def pool_graph_trl_start l')
  then show "start_node l \<in> fst ` set (nodes (plain_pool_graph ls))" by (simp add: map_of_eq_None_iff)
  have "map_of (nodes (plain_pool_graph ls)) (end_node l) \<noteq> None"
    by (simp add: end_node_def pool_graph_trl_end l')
  then show "end_node l \<in> fst ` set (nodes (plain_pool_graph ls))" by (simp add: map_of_eq_None_iff)
qed

lemma set_pairs_filter:
  "set (concat (map (\<lambda>i. map (\<lambda>j. (i, j)) (filter (P i) ys)) xs)) =
     {(i, j). i \<in> set xs \<and> j \<in> set ys \<and> P i j}"
  by auto

text \<open>When no call raises, the graph of lines 42 to 79 is the plain one.\<close>

lemma apply_rows_start:
  "apply_rows add_start_node xs G =
     (if list_all (\<lambda>x. ts_ok (ArvDTTM x - td_hours preload_time)) xs
      then Inr (fold (\<lambda>x. add_node (start_node x) (start_attrs x)) xs G)
      else Inl OutOfBoundsDatetime)"
  by (induction xs arbitrary: G) (simp_all add: add_start_node_def)

lemma apply_rows_end:
  "apply_rows add_end_node xs G =
     (if list_all (\<lambda>x. ts_ok (NxtArvDTTM x + td_hours drop_time)) xs
      then Inr (fold (\<lambda>x. add_node (end_node x) (end_attrs x)) xs G)
      else Inl OutOfBoundsDatetime)"
  by (induction xs arbitrary: G) (simp_all add: add_end_node_def)

lemma apply_rows_total: "apply_rows (\<lambda>x G. Inr (h x G)) xs G = Inr (fold h xs G)"
  by (induction xs arbitrary: G) simp_all

lemma apply_axis1_nothing: "apply_axis1 f (\<lambda>G. G) xs G = apply_rows f xs G"
  by (simp add: apply_axis1_def)

lemma node_graph_plain:
  "node_graph ls = (if legs_in_range ls then Inr (plain_node_graph ls) else Inl OutOfBoundsDatetime)"
  by (simp add: node_graph_def plain_node_graph_def legs_in_range_def Let_def apply_axis1_nothing
      apply_rows_start apply_rows_end)

lemma pool_graph_plain:
  "ls \<noteq> [] \<Longrightarrow>
   pool_graph ls = (if legs_in_range ls then Inr (plain_pool_graph ls) else Inl OutOfBoundsDatetime)"
  by (simp add: pool_graph_def plain_pool_graph_def node_graph_plain Let_def apply_axis1_def
      apply_rows_total)

lemma build_empty: "build_network_graph_from [] = Inl KeyError"
  by code_simp

lemma build_plain:
  "build_network_graph_from ls =
     (if ls = [] then Inl KeyError
      else if legs_in_range ls then trailer_edges (plain_pool_graph ls)
      else Inl OutOfBoundsDatetime)"
proof (cases "ls = []")
  case True
  then show ?thesis by (simp add: build_empty)
next
  case False
  then show ?thesis by (simp add: build_network_graph_from_def pool_graph_plain)
qed

lemma build_Inr_plain:
  assumes "build_network_graph_from ls = Inr G"
  shows "ls \<noteq> []" and "legs_in_range ls" and "trailer_edges (plain_pool_graph ls) = Inr G"
  using assms unfolding build_plain by (simp_all split: if_splits)

lemma build_unfold:
  "trailer_edges (plain_pool_graph ls) =
     (case nodes_tagged trailer_start (nodes (plain_pool_graph ls)) of
        Inl e \<Rightarrow> Inl e
      | Inr ts \<Rightarrow>
          (case nodes_tagged trailer_end (nodes (plain_pool_graph ls)) of
             Inl e \<Rightarrow> Inl e
           | Inr te \<Rightarrow>
               Inr (add_edges_from
                      (concat (map (\<lambda>i. map (\<lambda>j. (i, j))
                         (filter (\<lambda>j. same_trailer_ok
                              (node_attrs (add_edges_from
                                 (concat (map (\<lambda>i. map (\<lambda>j. (i, j))
                                    (filter (\<lambda>j. route_seq i = route_seq j) te)) ts))
                                 trailer_utilization (plain_pool_graph ls)) i)
                              (node_attrs (add_edges_from
                                 (concat (map (\<lambda>i. map (\<lambda>j. (i, j))
                                    (filter (\<lambda>j. route_seq i = route_seq j) te)) ts))
                                 trailer_utilization (plain_pool_graph ls)) j)) ts)) te))
                      same_trailer
                      (add_edges_from
                         (concat (map (\<lambda>i. map (\<lambda>j. (i, j))
                            (filter (\<lambda>j. route_seq i = route_seq j) te)) ts))
                         trailer_utilization (plain_pool_graph ls)))))"
  unfolding trailer_edges_def Let_def ..


text \<open>The function returns a graph exactly when every node has a tag, and then the
  graph has the nodes of \<open>plain_pool_graph\<close> and two more groups of edges.\<close>

lemma build_Inr:
  assumes "build_network_graph_from ls = Inr G"
  shows "nodes G = nodes (plain_pool_graph ls)"
    and "\<forall>(n, a) \<in> set (nodes G). tag a \<noteq> None"
    and "map_of (edges G) e =
           (if e \<in> {(i, j). i \<in> end_node ` set ls \<and> j \<in> start_node ` set ls \<and>
                         same_trailer_ok (node_attrs G i) (node_attrs G j)}
            then Some same_trailer
            else if e \<in> {(i, j). i \<in> start_node ` set ls \<and> j \<in> end_node ` set ls \<and>
                               route_seq i = route_seq j}
            then Some trailer_utilization
            else map_of (edges (plain_pool_graph ls)) e)"
    and "distinct (map fst (edges G))"
proof -
  note built = build_Inr_plain(3)[OF assms]
  define pg where "pg = plain_pool_graph ls"
  define ts where "ts = map fst (filter (\<lambda>(n, a). tag a = Some trailer_start) (nodes pg))"
  define te where "te = map fst (filter (\<lambda>(n, a). tag a = Some trailer_end) (nodes pg))"
  define util where "util = concat (map (\<lambda>i. map (\<lambda>j. (i, j)) (filter (\<lambda>j. route_seq i = route_seq j) te)) ts)"
  define G1 where "G1 = add_edges_from util trailer_utilization pg"
  define same where "same = concat (map (\<lambda>i. map (\<lambda>j. (i, j))
      (filter (\<lambda>j. same_trailer_ok (node_attrs G1 i) (node_attrs G1 j)) ts)) te)"
  from built obtain xs where xs: "nodes_tagged trailer_start (nodes pg) = Inr xs"
    unfolding build_unfold pg_def by (cases "nodes_tagged trailer_start (nodes (plain_pool_graph ls))") simp_all
  from built xs obtain ys where ys: "nodes_tagged trailer_end (nodes pg) = Inr ys"
    unfolding build_unfold pg_def by (cases "nodes_tagged trailer_end (nodes (plain_pool_graph ls))") simp_all
  from nodes_tagged_Inr[OF xs] nodes_tagged_Inr[OF ys]
  have tagged: "\<forall>(n, a) \<in> set (nodes pg). tag a \<noteq> None" and xs_eq: "xs = ts" and ys_eq: "ys = te"
    by (simp_all add: ts_def te_def)
  from built have G: "G = add_edges_from same same_trailer G1"
    unfolding build_unfold same_def G1_def util_def
    using xs ys unfolding pg_def[symmetric] xs_eq ys_eq by simp
  have sts: "set ts = start_node ` set ls" and ste: "set te = end_node ` set ls"
    unfolding ts_def te_def pg_def by (rule tagged_start_nodes, rule tagged_end_nodes)
  have known: "n \<in> fst ` set (nodes pg)" if "n \<in> set ts \<union> set te" for n
    using that trailer_nodes_known[of _ ls] unfolding sts ste pg_def by blast
  have su0: "set util = {(i, j). i \<in> set ts \<and> j \<in> set te \<and> route_seq i = route_seq j}"
    unfolding util_def by (rule set_pairs_filter)
  have ss0: "set same = {(i, j). i \<in> set te \<and> j \<in> set ts \<and>
                         same_trailer_ok (node_attrs G1 i) (node_attrs G1 j)}"
    unfolding same_def by (rule set_pairs_filter)
  have n1: "nodes G1 = nodes pg"
    unfolding G1_def
  proof (rule add_edges_from_nodes_known)
    fix e assume "e \<in> set util"
    then have "fst e \<in> set ts \<union> set te" "snd e \<in> set ts \<union> set te" unfolding su0 by auto
    then show "fst e \<in> fst ` set (nodes pg) \<and> snd e \<in> fst ` set (nodes pg)" using known by blast
  qed
  have n2: "nodes G = nodes G1"
    unfolding G
  proof (rule add_edges_from_nodes_known)
    fix e assume "e \<in> set same"
    then have "fst e \<in> set ts \<union> set te" "snd e \<in> set ts \<union> set te" unfolding ss0 by auto
    then show "fst e \<in> fst ` set (nodes G1) \<and> snd e \<in> fst ` set (nodes G1)" using known n1 by simp
  qed
  show "nodes G = nodes (plain_pool_graph ls)" using n1 n2 pg_def by simp
  with tagged show "\<forall>(n, a) \<in> set (nodes G). tag a \<noteq> None" by (simp add: pg_def)
  have attrs: "node_attrs G1 = node_attrs G"
    by (rule node_attrs_same_nodes[OF n2[symmetric]])
  have e1: "map_of (edges G) e = (if e \<in> set same then Some same_trailer
      else if e \<in> set util then Some trailer_utilization else map_of (edges pg) e)"
    unfolding G G1_def add_edges_from_edges ..
  show "map_of (edges G) e =
           (if e \<in> {(i, j). i \<in> end_node ` set ls \<and> j \<in> start_node ` set ls \<and>
                         same_trailer_ok (node_attrs G i) (node_attrs G j)}
            then Some same_trailer
            else if e \<in> {(i, j). i \<in> start_node ` set ls \<and> j \<in> end_node ` set ls \<and>
                               route_seq i = route_seq j}
            then Some trailer_utilization
            else map_of (edges (plain_pool_graph ls)) e)"
    unfolding e1 su0 ss0 sts ste attrs pg_def ..
  show "distinct (map fst (edges G))"
    unfolding G G1_def pg_def
    by (intro add_edges_from_distinct_edges pool_graph_distinct_edges)
qed

text \<open>The function fails exactly when a leg ends at a location where no leg starts.\<close>

lemma all_tagged_iff:
  "(\<forall>(n, a) \<in> set (nodes (plain_pool_graph ls)). tag a \<noteq> None) \<longleftrightarrow> DestZip ` set ls \<subseteq> Zip ` set ls"
proof
  assume t: "\<forall>(n, a) \<in> set (nodes (plain_pool_graph ls)). tag a \<noteq> None"
  show "DestZip ` set ls \<subseteq> Zip ` set ls"
  proof
    fix z assume z: "z \<in> DestZip ` set ls"
    show "z \<in> Zip ` set ls"
    proof (rule ccontr)
      assume "z \<notin> Zip ` set ls"
      with z have "map_of (nodes (plain_pool_graph ls)) (Loc z Pool_in) = Some No_attrs"
        by (simp add: pool_graph_loc)
      then have "(Loc z Pool_in, No_attrs) \<in> set (nodes (plain_pool_graph ls))" by (rule map_of_SomeD)
      with t show False by auto
    qed
  qed
next
  assume sub: "DestZip ` set ls \<subseteq> Zip ` set ls"
  have "False" if "(n, a) \<in> set (nodes (plain_pool_graph ls))" and none: "tag a = None" for n a
  proof -
    from that pool_graph_distinct_nodes[of ls] have m: "map_of (nodes (plain_pool_graph ls)) n = Some a" by simp
    from none have a: "a = No_attrs" by (cases a) simp_all
    show False
    proof (cases n)
      case Src with m a show ?thesis by (simp add: pool_graph_terminals)
    next
      case Snk with m a show ?thesis by (simp add: pool_graph_terminals)
    next
      case (Loc z d) with m a sub show ?thesis by (auto simp: pool_graph_loc split: if_splits)
    next
      case (Trl r q d)
      with m a show ?thesis
        by (cases d; cases "last_leg ls (r, q)")
           (simp_all add: pool_graph_trl_start pool_graph_trl_end start_attrs_def end_attrs_def)
    next
      case (Nan_loc d) with m show ?thesis by (simp add: pool_graph_nan)
    next
      case (Nan_trl d) with m show ?thesis by (simp add: pool_graph_nan)
    qed
  qed
  then show "\<forall>(n, a) \<in> set (nodes (plain_pool_graph ls)). tag a \<noteq> None" by blast
qed

lemma build_succeeds_iff:
  "(\<exists>G. build_network_graph_from ls = Inr G) \<longleftrightarrow>
     ls \<noteq> [] \<and> legs_in_range ls \<and> DestZip ` set ls \<subseteq> Zip ` set ls"
proof
  assume "\<exists>G. build_network_graph_from ls = Inr G"
  then obtain G where G: "build_network_graph_from ls = Inr G" ..
  from build_Inr(1,2)[OF G] have "\<forall>(n, a) \<in> set (nodes (plain_pool_graph ls)). tag a \<noteq> None"
    by metis
  then have "DestZip ` set ls \<subseteq> Zip ` set ls"
    by (rule iffD1[OF all_tagged_iff])
  with build_Inr_plain(1,2)[OF G]
  show "ls \<noteq> [] \<and> legs_in_range ls \<and> DestZip ` set ls \<subseteq> Zip ` set ls" by simp
next
  assume a: "ls \<noteq> [] \<and> legs_in_range ls \<and> DestZip ` set ls \<subseteq> Zip ` set ls"
  then have "\<forall>(n, a) \<in> set (nodes (plain_pool_graph ls)). tag a \<noteq> None"
    by (intro iffD2[OF all_tagged_iff]) simp
  from nodes_tagged_total[OF this]
  have "\<exists>G. trailer_edges (plain_pool_graph ls) = Inr G" unfolding build_unfold by simp
  with a show "\<exists>G. build_network_graph_from ls = Inr G" by (simp add: build_plain)
qed

section \<open>The examples, evaluated\<close>

lemma one_route_read: "read_driver_schedule one_route None = one_route_legs"
  by code_simp

lemma one_route_build: "build_network_graph_from one_route_legs = Inr one_route_graph"
  by code_simp

lemma one_route_build': "build_network_graph one_route = Inr one_route_graph"
  by (simp add: build_network_graph_def one_route_read one_route_build)

lemma two_routes_read: "read_driver_schedule two_routes None = two_routes_legs"
  by code_simp

lemma two_routes_build: "build_network_graph_from two_routes_legs = Inr two_routes_graph"
  by code_simp

lemma drained_read: "read_driver_schedule drained None = drained_legs"
  by code_simp

lemma drained_build: "build_network_graph_from drained_legs = Inr drained_graph"
  by code_simp

lemma repeated_read: "read_driver_schedule repeated None = repeated_legs"
  by code_simp

lemma repeated_build: "build_network_graph_from repeated_legs = Inr repeated_graph"
  by code_simp

lemma masked_read: "read_driver_schedule masked None = masked_legs"
  by code_simp

lemma masked_build: "build_network_graph_from masked_legs = Inr masked_graph"
  by code_simp

lemma backwards_read: "read_driver_schedule backwards None = backwards_legs"
  by code_simp

lemma backwards_build: "build_network_graph_from backwards_legs = Inr backwards_graph"
  by code_simp

section \<open>The returned flow map\<close>

lemma build_distinct_edge_list:
  "build_network_graph_from ls = Inr G \<Longrightarrow> distinct (edge_list G)"
  by (simp add: edge_list_def build_Inr(4))

lemma map_of_flow_map:
  "e \<in> set es \<Longrightarrow> map_of (map (\<lambda>(i, j). ((i, j), a (Flow i j))) es) e = Some (a (Flow (fst e) (snd e)))"
  by (induction es) (auto split: prod.splits)

text \<open>
  C10. When the entry point returns a flow map, the graph was built, the solver gave a
  solution, and the map has exactly one entry for each edge of the graph: its keys are
  the edges, without repetition, and each edge is mapped to the value of its flow
  variable in the solution.
\<close>

theorem flow_map_is_edge_set:
  assumes "solve_min_flow_prob solver schedule_file bal_pool = Inr (msg, Some sol)"
  shows "\<exists>G a. build_network_graph schedule_file = Inr G
           \<and> solver (flow_model G (bal_pool = Some True)) = Some a
           \<and> map fst sol = edge_list G
           \<and> distinct (map fst sol)
           \<and> (\<forall>e \<in> set (edge_list G). map_of sol e = Some (a (Flow (fst e) (snd e))))"
proof -
  define ls where "ls = read_driver_schedule schedule_file None"
  define b where "b = (case bal_pool of None \<Rightarrow> False | Some b \<Rightarrow> b)"
  have b: "b = (bal_pool = Some True)" by (cases bal_pool) (auto simp: b_def)
  from assms have r: "solve_min_flow_prob_from solver ls b = Inr (msg, Some sol)"
    by (simp add: solve_min_flow_prob_def ls_def b_def)
  then obtain G where G: "build_network_graph_from ls = Inr G"
    by (cases "build_network_graph_from ls") (simp_all add: solve_min_flow_prob_from_def)
  with r obtain a where a: "solver (flow_model G b) = Some a"
    by (cases "solver (flow_model G b)") (simp_all add: solve_min_flow_prob_from_def)
  from r G a have sol: "sol = map (\<lambda>(i, j). ((i, j), a (Flow i j))) (edge_list G)"
    by (simp add: solve_min_flow_prob_from_def)
  have keys: "map fst sol = edge_list G"
    unfolding sol by (simp add: comp_def case_prod_unfold)
  have "distinct (map fst sol)" unfolding keys by (rule build_distinct_edge_list[OF G])
  moreover have "\<forall>e \<in> set (edge_list G). map_of sol e = Some (a (Flow (fst e) (snd e)))"
    unfolding sol by (simp add: map_of_flow_map)
  ultimately show ?thesis
    using G a keys unfolding b build_network_graph_def ls_def by blast
qed

lemma one_route_solve:
  "solve_min_flow_prob (\<lambda>m. Some one_route_flow) one_route None =
     Inr (Minimum_trailers 2,
          Some (map (\<lambda>(i, j). ((i, j), one_route_flow (Flow i j))) (edge_list one_route_graph)))"
  by (simp add: solve_min_flow_prob_def solve_min_flow_prob_from_def one_route_read one_route_build)

theorem flow_map_is_edge_set_witness:
  "solve_min_flow_prob (\<lambda>m. Some one_route_flow) one_route None =
     Inr (Minimum_trailers 2,
          Some (map (\<lambda>(i, j). ((i, j), one_route_flow (Flow i j))) (edge_list one_route_graph)))
   \<and> (\<exists>G a. build_network_graph one_route = Inr G
           \<and> (\<lambda>m. Some one_route_flow) (flow_model G (None = Some True)) = Some a
           \<and> map fst (map (\<lambda>(i, j). ((i, j), one_route_flow (Flow i j))) (edge_list one_route_graph))
               = edge_list G
           \<and> distinct (map fst (map (\<lambda>(i, j). ((i, j), one_route_flow (Flow i j))) (edge_list one_route_graph)))
           \<and> (\<forall>e \<in> set (edge_list G).
                 map_of (map (\<lambda>(i, j). ((i, j), one_route_flow (Flow i j))) (edge_list one_route_graph)) e
                   = Some (a (Flow (fst e) (snd e)))))"
  using flow_map_is_edge_set[OF one_route_solve] one_route_solve by blast

section \<open>Edges between trailer nodes\<close>

lemma build_node_attrs:
  assumes "build_network_graph_from ls = Inr G"
  shows "node_attrs G (Trl r q Trl_start) = (case last_leg ls (r, q) of Some l \<Rightarrow> start_attrs l | None \<Rightarrow> No_attrs)"
    and "node_attrs G (Trl r q Trl_end) = (case last_leg ls (r, q) of Some l \<Rightarrow> end_attrs l | None \<Rightarrow> No_attrs)"
  unfolding node_attrs_def build_Inr(1)[OF assms] pool_graph_trl_start pool_graph_trl_end
  by (simp_all split: option.splits)

lemma edge_list_iff: "e \<in> set (edge_list G) \<longleftrightarrow> edge_tag_of G e \<noteq> None"
  by (simp add: edge_list_def edge_tag_of_def map_of_eq_None_iff)

lemma reuse_edge_tag:
  assumes "build_network_graph_from ls = Inr G" and "la \<in> set ls" and "lb \<in> set ls"
  shows "edge_tag_of G (end_node la, start_node lb) =
           (if same_trailer_ok (node_attrs G (end_node la)) (node_attrs G (start_node lb))
            then Some same_trailer else None)"
proof -
  have n1: "end_node la \<notin> start_node ` set ls"
    by (auto simp: start_node_def end_node_def)
  have n2: "map_of (edges (plain_pool_graph ls)) (end_node la, start_node lb) = None"
    unfolding pool_graph_edges by (auto simp: start_node_def end_node_def)
  have m: "end_node la \<in> end_node ` set ls" "start_node lb \<in> start_node ` set ls"
    using assms(2,3) by simp_all
  show ?thesis
    unfolding edge_tag_of_def build_Inr(3)[OF assms(1)] by (simp add: n1 n2 m)
qed

text \<open>
  A repeated (route, sequence) pair hides a reuse edge. On the sheet \<open>masked\<close> the leg
  of route 1 from hour 0 to hour 10 ends at location 7, where the leg of route 2
  starts, and releases its trailer at hour 18, before the leg of route 2 needs one at
  hour 24; the graph has no edge from its end node to the start node of that leg: the
  end node is also the end node of the second row with the pair (1, 1), whose release
  is at hour 28.
\<close>

theorem repeated_pair_hides_reuse_edge:
  "read_driver_schedule masked None = masked_legs
   \<and> build_network_graph masked = Inr masked_graph
   \<and> mk_leg 1 1 7 0 10 7 \<in> set masked_legs \<and> mk_leg 2 1 7 30 40 7 \<in> set masked_legs
   \<and> DestZip (mk_leg 1 1 7 0 10 7) = Zip (mk_leg 2 1 7 30 40 7)
   \<and> NxtArvDTTM (mk_leg 1 1 7 0 10 7) + td_hours drop_time
       < ArvDTTM (mk_leg 2 1 7 30 40 7) - td_hours preload_time
   \<and> (end_node (mk_leg 1 1 7 0 10 7), start_node (mk_leg 2 1 7 30 40 7)) \<notin> set (edge_list masked_graph)"
  by (simp add: build_network_graph_def masked_read masked_build)
     (simp add: masked_legs_def masked_graph_def mk_leg_def td_hours_def drop_time_def preload_time_def
        end_node_def start_node_def edge_list_def)

text \<open>
  C2, amended. In a graph that was built, for every two legs \<open>la\<close> and \<open>lb\<close> of the
  frame, there is an edge from the end node of \<open>la\<close> to the start node of \<open>lb\<close> exactly
  when \<open>la'\<close> ends where \<open>lb'\<close> starts and the release time of \<open>la'\<close> (next arrival plus
  the drop time) is strictly before the ready time of \<open>lb'\<close> (arrival minus the preload
  time), where \<open>la'\<close> and \<open>lb'\<close> are the last legs of the frame with the (route,
  sequence) pairs of \<open>la\<close> and \<open>lb\<close>: they are \<open>la\<close> and \<open>lb\<close> themselves when no other
  leg has their pair. The edge is then tagged \<open>same_trailer\<close>, and there is no such
  edge when the two times are equal.
\<close>

theorem reuse_edge_iff:
  assumes "build_network_graph_from ls = Inr G" and "la \<in> set ls" and "lb \<in> set ls"
  shows "\<exists>la' \<in> set ls. \<exists>lb' \<in> set ls.
           last_leg ls (Route la, Sequence la) = Some la'
         \<and> last_leg ls (Route lb, Sequence lb) = Some lb'
         \<and> ((\<forall>k \<in> set ls. Route k = Route la \<and> Sequence k = Sequence la \<longrightarrow> k = la) \<longrightarrow> la' = la)
         \<and> ((\<forall>k \<in> set ls. Route k = Route lb \<and> Sequence k = Sequence lb \<longrightarrow> k = lb) \<longrightarrow> lb' = lb)
         \<and> ((end_node la, start_node lb) \<in> set (edge_list G) \<longleftrightarrow>
               DestZip la' = Zip lb' \<and>
               NxtArvDTTM la' + td_hours drop_time < ArvDTTM lb' - td_hours preload_time)
         \<and> edge_tag_of G (end_node la, start_node lb) \<in> {None, Some same_trailer}
         \<and> (NxtArvDTTM la' + td_hours drop_time = ArvDTTM lb' - td_hours preload_time
              \<longrightarrow> (end_node la, start_node lb) \<notin> set (edge_list G))"
proof -
  from last_leg_exists[OF assms(2)] obtain la' where a: "last_leg ls (Route la, Sequence la) = Some la'"
    by blast
  from last_leg_exists[OF assms(3)] obtain lb' where b: "last_leg ls (Route lb, Sequence lb) = Some lb'"
    by blast
  from last_leg_Some[OF a] last_leg_Some[OF b] have m: "la' \<in> set ls" "lb' \<in> set ls" by simp_all
  have ua: "la' = la" if "\<forall>k \<in> set ls. Route k = Route la \<and> Sequence k = Sequence la \<longrightarrow> k = la"
    using last_leg_unique[OF assms(2) that] a by simp
  have ub: "lb' = lb" if "\<forall>k \<in> set ls. Route k = Route lb \<and> Sequence k = Sequence lb \<longrightarrow> k = lb"
    using last_leg_unique[OF assms(3) that] b by simp
  have na: "node_attrs G (end_node la) = end_attrs la'"
    unfolding end_node_def build_node_attrs[OF assms(1)] by (simp add: a)
  have nb: "node_attrs G (start_node lb) = start_attrs lb'"
    unfolding start_node_def build_node_attrs[OF assms(1)] by (simp add: b)
  have e: "((end_node la, start_node lb) \<in> set (edge_list G) \<longleftrightarrow>
               DestZip la' = Zip lb' \<and>
               NxtArvDTTM la' + td_hours drop_time < ArvDTTM lb' - td_hours preload_time)
         \<and> edge_tag_of G (end_node la, start_node lb) \<in> {None, Some same_trailer}
         \<and> (NxtArvDTTM la' + td_hours drop_time = ArvDTTM lb' - td_hours preload_time
              \<longrightarrow> (end_node la, start_node lb) \<notin> set (edge_list G))"
    unfolding edge_list_iff reuse_edge_tag[OF assms] na nb
    by (simp add: start_attrs_def end_attrs_def)
  from a b ua ub e m show ?thesis by blast
qed

theorem reuse_edge_iff_witness:
  "build_network_graph_from two_routes_legs = Inr two_routes_graph
   \<and> mk_leg 1 1 7 0 10 7 \<in> set two_routes_legs \<and> mk_leg 2 1 7 100 110 7 \<in> set two_routes_legs
   \<and> (Trl 1 1 Trl_end, Trl 2 1 Trl_start) \<in> set (edge_list two_routes_graph)
   \<and> (Trl 2 1 Trl_end, Trl 1 1 Trl_start) \<notin> set (edge_list two_routes_graph)"
proof -
  have a: "mk_leg 1 1 7 0 10 7 \<in> set two_routes_legs" and b: "mk_leg 2 1 7 100 110 7 \<in> set two_routes_legs"
    by (simp_all add: two_routes_legs_def)
  have ua: "\<forall>k \<in> set two_routes_legs. Route k = Route (mk_leg 1 1 7 0 10 7)
      \<and> Sequence k = Sequence (mk_leg 1 1 7 0 10 7) \<longrightarrow> k = mk_leg 1 1 7 0 10 7"
    by (simp add: two_routes_legs_def mk_leg_def)
  have ub: "\<forall>k \<in> set two_routes_legs. Route k = Route (mk_leg 2 1 7 100 110 7)
      \<and> Sequence k = Sequence (mk_leg 2 1 7 100 110 7) \<longrightarrow> k = mk_leg 2 1 7 100 110 7"
    by (simp add: two_routes_legs_def mk_leg_def)
  from reuse_edge_iff[OF two_routes_build a b] ua ub
  have 1: "(end_node (mk_leg 1 1 7 0 10 7), start_node (mk_leg 2 1 7 100 110 7)) \<in> set (edge_list two_routes_graph) \<longleftrightarrow>
               DestZip (mk_leg 1 1 7 0 10 7) = Zip (mk_leg 2 1 7 100 110 7) \<and>
               NxtArvDTTM (mk_leg 1 1 7 0 10 7) + td_hours drop_time < ArvDTTM (mk_leg 2 1 7 100 110 7) - td_hours preload_time"
    by blast
  from reuse_edge_iff[OF two_routes_build b a] ua ub
  have 2: "(end_node (mk_leg 2 1 7 100 110 7), start_node (mk_leg 1 1 7 0 10 7)) \<in> set (edge_list two_routes_graph) \<longleftrightarrow>
               DestZip (mk_leg 2 1 7 100 110 7) = Zip (mk_leg 1 1 7 0 10 7) \<and>
               NxtArvDTTM (mk_leg 2 1 7 100 110 7) + td_hours drop_time < ArvDTTM (mk_leg 1 1 7 0 10 7) - td_hours preload_time"
    by blast
  from 1 2 show ?thesis using two_routes_build a b
    by (simp add: mk_leg_def start_node_def end_node_def td_hours_def drop_time_def preload_time_def)
qed

section \<open>Utilization edges\<close>


lemma utilization_edge_iff:
  assumes "build_network_graph_from ls = Inr G"
  shows "edge_tag_of G e = Some trailer_utilization \<longleftrightarrow> (\<exists>l \<in> set ls. e = (start_node l, end_node l))"
proof -
  define U where "U = {(i, j). i \<in> start_node ` set ls \<and> j \<in> end_node ` set ls \<and> route_seq i = route_seq j}"
  define R where "R = {(i, j). i \<in> end_node ` set ls \<and> j \<in> start_node ` set ls \<and>
                         same_trailer_ok (node_attrs G i) (node_attrs G j)}"
  have tag: "edge_tag_of G e = (if e \<in> R then Some same_trailer
      else if e \<in> U then Some trailer_utilization else map_of (edges (plain_pool_graph ls)) e)"
    unfolding edge_tag_of_def build_Inr(3)[OF assms] U_def R_def ..
  have pool: "map_of (edges (plain_pool_graph ls)) e \<noteq> Some trailer_utilization"
    unfolding pool_graph_edges by simp
  have U: "e \<in> U \<longleftrightarrow> (\<exists>l \<in> set ls. e = (start_node l, end_node l))"
    unfolding U_def by (cases e) (auto simp: start_node_def end_node_def)
  have "e \<notin> R" if "e \<in> U"
    using that unfolding U_def R_def by (cases e) (auto simp: start_node_def end_node_def)
  then show ?thesis unfolding tag using pool U by (cases "e \<in> R"; cases "e \<in> U") simp_all
qed

lemma feasible_bounds:
  "feasible m a \<Longrightarrow> (x, l, u) \<in> set (variables m) \<Longrightarrow> l \<le> a x \<and> (\<forall>h. u = Some h \<longrightarrow> a x \<le> h)"
  by (auto simp: feasible_def list_all_iff in_bounds_def split: option.splits)

lemma feasible_holds: "feasible m a \<Longrightarrow> c \<in> set (constraints m) \<Longrightarrow> holds a c"
  by (simp add: feasible_def list_all_iff)

lemma flow_var_declared:
  "e \<in> set (edge_list G) \<Longrightarrow> flow_var_decl G e \<in> set (variables (flow_model G bal_pool))"
  by (simp add: flow_model_def)



lemma one_route_feasible: "feasible (flow_model one_route_graph False) one_route_flow"
  by (simp add: feasible_def flow_model_def one_route_graph_def edge_list_def node_list_def
      flow_var_decl_def edge_tag_of_def in_bounds_def node_constraints_def conservation_def
      out_flows_def in_flows_def neighbors_def sum_vars_def minus_expr_def eval_expr_def node_attrs_def)


section \<open>The constraints of the model\<close>

lemma eval_sum_vars: "eval_expr a (sum_vars xs) = sum_list (map a xs)"
  by (simp add: eval_expr_def sum_vars_def comp_def)

lemma eval_minus_expr: "eval_expr a (minus_expr l r) = eval_expr a l - eval_expr a r"
proof -
  have "sum_list (map (\<lambda>(c, x). c * a x) (map (\<lambda>(c, x). (- c, x)) r)) = - sum_list (map (\<lambda>(c, x). c * a x) r)"
    by (induction r) auto
  then show ?thesis by (simp add: eval_expr_def minus_expr_def)
qed

lemma eval_empty [simp]: "eval_expr a [] = 0"
  by (simp add: eval_expr_def)

lemma conservation_declared:
  "i \<in> set (node_list G) \<Longrightarrow> conservation G i \<in> set (constraints (flow_model G bal_pool))"
proof -
  assume i: "i \<in> set (node_list G)"
  have "conservation G i \<in> set (node_constraints G bal_pool i)"
    unfolding node_constraints_def by (rule list.set_intros(1))
  with i have "\<exists>n \<in> set (node_list G). conservation G i \<in> set (node_constraints G bal_pool n)" ..
  then show ?thesis by (simp add: flow_model_def)
qed

lemma holds_conservation:
  "i \<noteq> Src \<Longrightarrow> i \<noteq> Snk \<Longrightarrow>
   holds a (conservation G i) \<longleftrightarrow>
     sum_list (map (\<lambda>j. a (Flow i j)) (neighbors G i)) =
     sum_list (map (\<lambda>(m, n). a (Flow m n)) (filter (\<lambda>(m, n). n = i) (edge_list G)))"
  by (simp add: conservation_def eval_minus_expr eval_sum_vars out_flows_def in_flows_def comp_def
      case_prod_unfold)

lemma variables_lower_bounds:
  "d \<in> set (variables (flow_model G bal_pool)) \<Longrightarrow> 0 \<le> fst (snd d)"
  by (auto simp: flow_model_def flow_var_decl_def)

text \<open>
  C4. At every node of the built graph other than the source and the sink, the model
  holds the conservation equation of the node, and so in every feasible assignment the
  flows on the edges that leave the node add up to the flows on the edges that enter
  it. Every variable of the model is declared with a lower bound of 0 or more, so
  every feasible assignment gives every edge a flow that is not negative.
\<close>

theorem flow_conservation:
  assumes "build_network_graph_from ls = Inr G"
      and "i \<in> set (node_list G)" and "i \<noteq> Src" and "i \<noteq> Snk"
  shows "conservation G i \<in> set (constraints (flow_model G bal_pool))
       \<and> (\<forall>a. feasible (flow_model G bal_pool) a \<longrightarrow>
            sum_list (map (\<lambda>j. a (Flow i j)) (neighbors G i)) =
            sum_list (map (\<lambda>(m, n). a (Flow m n)) (filter (\<lambda>(m, n). n = i) (edge_list G))))
       \<and> (\<forall>d \<in> set (variables (flow_model G bal_pool)). 0 \<le> fst (snd d))
       \<and> (\<forall>a. feasible (flow_model G bal_pool) a \<longrightarrow>
            (\<forall>e \<in> set (edge_list G). 0 \<le> a (Flow (fst e) (snd e))))"
proof (intro conjI allI impI ballI)
  show c: "conservation G i \<in> set (constraints (flow_model G bal_pool))"
    by (rule conservation_declared[OF assms(2)])
  show "0 \<le> fst (snd d)" if "d \<in> set (variables (flow_model G bal_pool))" for d
    by (rule variables_lower_bounds[OF that])
  fix a assume f: "feasible (flow_model G bal_pool) a"
  from feasible_holds[OF f c]
  show "sum_list (map (\<lambda>j. a (Flow i j)) (neighbors G i)) =
        sum_list (map (\<lambda>(m, n). a (Flow m n)) (filter (\<lambda>(m, n). n = i) (edge_list G)))"
    by (simp add: holds_conservation[OF assms(3,4)])
  fix e assume e: "e \<in> set (edge_list G)"
  obtain x l u where d: "flow_var_decl G e = (x, l, u)" by (cases "flow_var_decl G e")
  then have x: "x = Flow (fst e) (snd e)" and l: "0 \<le> l"
    by (auto simp: flow_var_decl_def split: if_splits)
  from feasible_bounds[OF f, of x l u] flow_var_declared[OF e, of bal_pool] d
  have "l \<le> a x" by simp
  with l show "0 \<le> a (Flow (fst e) (snd e))" unfolding x by simp
qed

theorem flow_conservation_witness:
  "build_network_graph_from one_route_legs = Inr one_route_graph
   \<and> Loc 7 Pool_out \<in> set (node_list one_route_graph) \<and> Loc 7 Pool_out \<noteq> Src \<and> Loc 7 Pool_out \<noteq> Snk
   \<and> feasible (flow_model one_route_graph False) one_route_flow
   \<and> conservation one_route_graph (Loc 7 Pool_out) \<in> set (constraints (flow_model one_route_graph False))
   \<and> sum_list (map (\<lambda>j. one_route_flow (Flow (Loc 7 Pool_out) j)) (neighbors one_route_graph (Loc 7 Pool_out))) =
     sum_list (map (\<lambda>(m, n). one_route_flow (Flow m n))
        (filter (\<lambda>(m, n). n = Loc 7 Pool_out) (edge_list one_route_graph)))"
proof -
  have n: "Loc 7 Pool_out \<in> set (node_list one_route_graph)"
    by (simp add: one_route_graph_def node_list_def)
  from flow_conservation[OF one_route_build n, of False] one_route_feasible
  show ?thesis using one_route_build n by simp
qed

section \<open>Pool balance\<close>

lemma node_constraints_without_balance:
  "node_constraints G False = (\<lambda>i. [conservation G i])"
  by (simp add: fun_eq_iff node_constraints_def)

lemma constraints_without_balance:
  "constraints (flow_model G False) = map (conservation G) (node_list G)"
  by (simp add: flow_model_def node_constraints_without_balance)

lemma mset_concat_cons:
  "mset (concat (map (\<lambda>i. c i # e i) xs)) = mset (map c xs) + mset (concat (map e xs))"
  by (induction xs) simp_all

lemma concat_map_option:
  "(\<forall>i \<in> set xs. e i = (case g i of Some z \<Rightarrow> [h z] | None \<Rightarrow> [])) \<Longrightarrow>
   concat (map e xs) = map h (List.map_filter g xs)"
  by (induction xs) (auto simp: List.map_filter_simps split: option.splits)

lemma set_map_filter: "set (List.map_filter g xs) = {z. \<exists>x \<in> set xs. g x = Some z}"
  by (induction xs) (auto simp: List.map_filter_simps split: option.splits)

lemma distinct_map_filter:
  "distinct xs \<Longrightarrow> (\<And>x y z. g x = Some z \<Longrightarrow> g y = Some z \<Longrightarrow> x = y) \<Longrightarrow>
   distinct (List.map_filter g xs)"
proof (induction xs)
  case Nil
  then show ?case by (simp add: List.map_filter_simps)
next
  case (Cons x xs)
  then have d: "distinct (List.map_filter g xs)" by simp
  show ?case
  proof (cases "g x")
    case None
    with d show ?thesis by (simp add: List.map_filter_simps)
  next
    case (Some z)
    have "z \<notin> set (List.map_filter g xs)"
    proof
      assume "z \<in> set (List.map_filter g xs)"
      then obtain y where "y \<in> set xs" "g y = Some z" unfolding set_map_filter by blast
      with Cons.prems(2)[OF Some, of y] Cons.prems(1) show False by simp
    qed
    with d Some show ?thesis by (simp add: List.map_filter_simps)
  qed
qed

lemma pool_out_of_Some: "pool_out_of i = Some z \<longleftrightarrow> i = Loc z Pool_out"
  by (cases i rule: pool_out_of.cases) auto

lemma build_pool_out:
  assumes "build_network_graph_from ls = Inr G"
  shows "Loc z Pool_out \<in> set (node_list G) \<longleftrightarrow> z \<in> Zip ` set ls"
    and "Loc z Pool_out \<in> set (node_list G) \<Longrightarrow> tag (node_attrs G (Loc z Pool_out)) = Some location"
proof -
  have m: "map_of (nodes G) (Loc z Pool_out) = (if z \<in> Zip ` set ls then Some Location else None)"
    unfolding build_Inr(1)[OF assms] pool_graph_loc by simp
  have i: "Loc z Pool_out \<in> set (node_list G) \<longleftrightarrow> map_of (nodes G) (Loc z Pool_out) \<noteq> None"
    by (simp add: node_list_def map_of_eq_None_iff)
  show "Loc z Pool_out \<in> set (node_list G) \<longleftrightarrow> z \<in> Zip ` set ls"
    unfolding i m by simp
  then show "Loc z Pool_out \<in> set (node_list G) \<Longrightarrow> tag (node_attrs G (Loc z Pool_out)) = Some location"
    by (simp add: node_attrs_def m)
qed

lemma build_distinct_node_list:
  "build_network_graph_from ls = Inr G \<Longrightarrow> distinct (node_list G)"
  by (simp add: node_list_def build_Inr(1) pool_graph_distinct_nodes)

lemma balance_constraints:
  assumes "build_network_graph_from ls = Inr G"
  shows "mset (constraints (flow_model G True)) =
         mset (map (conservation G) (node_list G)) + mset (map pool_balance (unique (map Zip ls)))"
proof -
  define e where "e = (\<lambda>i. if i \<noteq> Src \<and> i \<noteq> Snk \<and> True \<and> tag (node_attrs G i) = Some location
      then (case i of Loc loc Pool_out \<Rightarrow> [pool_balance loc] | _ \<Rightarrow> []) else [])"
  have c: "constraints (flow_model G True) = concat (map (\<lambda>i. conservation G i # e i) (node_list G))"
  proof -
    have "node_constraints G True = (\<lambda>i. conservation G i # e i)"
      by (simp add: fun_eq_iff node_constraints_def e_def)
    then show ?thesis by (simp add: flow_model_def)
  qed
  have "e i = (case pool_out_of i of Some z \<Rightarrow> [pool_balance z] | None \<Rightarrow> [])"
    if "i \<in> set (node_list G)" for i
  proof (cases i rule: pool_out_of.cases)
    case (1 z)
    with that build_pool_out(2)[OF assms, of z] show ?thesis by (simp add: e_def)
  qed (simp_all add: e_def)
  then have ex: "concat (map e (node_list G)) = map pool_balance (List.map_filter pool_out_of (node_list G))"
    by (intro concat_map_option) blast
  have "distinct (List.map_filter pool_out_of (node_list G))"
    by (rule distinct_map_filter[OF build_distinct_node_list[OF assms]]) (simp add: pool_out_of_Some)
  moreover have "set (List.map_filter pool_out_of (node_list G)) = set (unique (map Zip ls))"
    unfolding set_map_filter pool_out_of_Some using build_pool_out(1)[OF assms] by auto
  ultimately have "mset (List.map_filter pool_out_of (node_list G)) = mset (unique (map Zip ls))"
    using distinct_unique[of "map Zip ls"] by (metis set_eq_iff_mset_eq_distinct)
  then have "mset (map pool_balance (List.map_filter pool_out_of (node_list G))) =
             mset (map pool_balance (unique (map Zip ls)))"
    by (metis mset_map)
  then show ?thesis unfolding c mset_concat_cons ex by simp
qed

lemma eval_single: "eval_expr a [(c, x)] = c * a x"
  by (simp add: eval_expr_def)

lemma holds_pool_balance:
  "holds a (pool_balance loc) \<longleftrightarrow> a (Flow Src (Loc loc Pool_out)) = a (Flow (Loc loc Pool_in) Snk)"
  by (simp add: pool_balance_def eval_minus_expr eval_single)


text \<open>
  C6. The pool balance is asked for by the caller. For a sheet whose graph \<open>G\<close> is
  built, the entry point answers with what the solving engine makes of the model
  \<open>flow_model G b\<close>, where \<open>b\<close> is true exactly when the caller passed the flag as true.
  The constraints of \<open>flow_model G False\<close> are the conservation equations of the nodes
  and nothing else; \<open>flow_model G True\<close> has, besides them, one equation for each
  location of the sheet, which says that the flow from the source into the out-pool of
  the location equals the flow from its in-pool to the sink. A call that leaves the
  flag out is a call with the flag false.
\<close>

theorem pool_balance_is_opt_in:
  assumes "build_network_graph schedule_file = Inr G"
  shows "solve_min_flow_prob solver schedule_file bal_pool =
           (case solver (flow_model G (bal_pool = Some True)) of
              None \<Rightarrow> Inr (No_solution, None)
            | Some a \<Rightarrow> Inr (Minimum_trailers (a Flow_value),
                            Some (map (\<lambda>(i, j). ((i, j), a (Flow i j))) (edge_list G))))
       \<and> constraints (flow_model G False) = map (conservation G) (node_list G)
       \<and> mset (constraints (flow_model G True)) =
           mset (map (conservation G) (node_list G))
           + mset (map pool_balance (unique (map Zip (read_driver_schedule schedule_file None))))
       \<and> (\<forall>a loc. holds a (pool_balance loc) \<longleftrightarrow>
                    a (Flow Src (Loc loc Pool_out)) = a (Flow (Loc loc Pool_in) Snk))
       \<and> solve_min_flow_prob solver schedule_file None = solve_min_flow_prob solver schedule_file (Some False)"
proof -
  from assms have b: "build_network_graph_from (read_driver_schedule schedule_file None) = Inr G"
    by (simp add: build_network_graph_def)
  have m: "(case bal_pool of None \<Rightarrow> False | Some b \<Rightarrow> b) = (bal_pool = Some True)"
    by (cases bal_pool) simp_all
  have s: "solve_min_flow_prob solver schedule_file bal_pool =
           (case solver (flow_model G (bal_pool = Some True)) of
              None \<Rightarrow> Inr (No_solution, None)
            | Some a \<Rightarrow> Inr (Minimum_trailers (a Flow_value),
                            Some (map (\<lambda>(i, j). ((i, j), a (Flow i j))) (edge_list G))))"
    unfolding solve_min_flow_prob_def solve_min_flow_prob_from_def b m by simp
  have d: "solve_min_flow_prob solver schedule_file None = solve_min_flow_prob solver schedule_file (Some False)"
    by (simp add: solve_min_flow_prob_def)
  from s constraints_without_balance[of G] balance_constraints[OF b] holds_pool_balance d
  show ?thesis by blast
qed

theorem pool_balance_is_opt_in_witness:
  "build_network_graph one_route = Inr one_route_graph
   \<and> solve_min_flow_prob balance_probe one_route (Some True) = Inr (No_solution, None)
   \<and> solve_min_flow_prob balance_probe one_route (Some False) =
       Inr (Minimum_trailers 2,
            Some (map (\<lambda>(i, j). ((i, j), one_route_flow (Flow i j))) (edge_list one_route_graph)))
   \<and> solve_min_flow_prob balance_probe one_route None =
       Inr (Minimum_trailers 2,
            Some (map (\<lambda>(i, j). ((i, j), one_route_flow (Flow i j))) (edge_list one_route_graph)))
   \<and> mset (constraints (flow_model one_route_graph True)) =
       mset (map (conservation one_route_graph) (node_list one_route_graph)) + {#pool_balance 7#}"
proof -
  have g: "build_network_graph one_route = Inr one_route_graph"
    by (simp add: build_network_graph_def one_route_read one_route_build)
  note t = pool_balance_is_opt_in[OF g, of balance_probe]
  have u: "unique (map Zip (read_driver_schedule one_route None)) = [7]"
    by (simp add: one_route_read one_route_legs_def mk_leg_def unique_def)
  from t[of "Some True"] have c: "mset (constraints (flow_model one_route_graph True)) =
       mset (map (conservation one_route_graph) (node_list one_route_graph)) + {#pool_balance 7#}"
    unfolding u by simp
  then have "pool_balance 7 \<in># mset (constraints (flow_model one_route_graph True))" by simp
  then have y: "balance_probe (flow_model one_route_graph True) = None"
    by (simp add: balance_probe_def)
  have "pool_balance 7 \<notin> set (map (conservation one_route_graph) (node_list one_route_graph))"
    by (simp add: one_route_graph_def node_list_def conservation_def pool_balance_def out_flows_def
        in_flows_def neighbors_def sum_vars_def minus_expr_def edge_list_def)
  with t[of "Some False"] have n: "balance_probe (flow_model one_route_graph False) = Some one_route_flow"
    by (simp add: balance_probe_def)
  from t[of "Some True"] y have 1: "solve_min_flow_prob balance_probe one_route (Some True) = Inr (No_solution, None)"
    by simp
  from t[of "Some False"] n have 2: "solve_min_flow_prob balance_probe one_route (Some False) =
       Inr (Minimum_trailers 2,
            Some (map (\<lambda>(i, j). ((i, j), one_route_flow (Flow i j))) (edge_list one_route_graph)))"
    by simp
  from t[of None] n have 3: "solve_min_flow_prob balance_probe one_route None =
       Inr (Minimum_trailers 2,
            Some (map (\<lambda>(i, j). ((i, j), one_route_flow (Flow i j))) (edge_list one_route_graph)))"
    by simp
  from g 1 2 3 c show ?thesis by (intro conjI)
qed


section \<open>What the entry point returns\<close>

lemmas model_unfold =
  feasible_def flow_model_def edge_list_def node_list_def
  flow_var_decl_def edge_tag_of_def in_bounds_def node_constraints_def conservation_def
  pool_balance_def out_flows_def in_flows_def neighbors_def sum_vars_def minus_expr_def
  eval_expr_def node_attrs_def

lemma drained_infeasible: "\<not> feasible (flow_model drained_graph True) a"
  by (auto simp: model_unfold drained_graph_def)


lemma drained_solve:
  "solve_min_flow_prob (\<lambda>m. None) drained (Some True) = Inr (No_solution, None)"
  by (simp add: solve_min_flow_prob_def solve_min_flow_prob_from_def drained_read drained_build)

text \<open>
  C7, as the claim states it, fails. For the sheet \<open>drained\<close> with the pool balance
  switched on, no assignment satisfies the constraints, an engine that reports this
  keeps its contract, and the entry point does not fail: it returns \<open>None\<close> after its
  message.
\<close>

theorem infeasible_is_not_an_error:
  "solves (\<lambda>m. None) (flow_model drained_graph True)
   \<and> build_network_graph drained = Inr drained_graph
   \<and> solve_min_flow_prob (\<lambda>m. None) drained (Some True) = Inr (No_solution, None)
   \<and> \<not> isl (solve_min_flow_prob (\<lambda>m. None) drained (Some True))"
  by (simp add: solves_def drained_infeasible drained_solve build_network_graph_def
      drained_read drained_build)

text \<open>
  C7, amended. When the graph is built, the entry point never fails. If the engine
  gives a solution, the function prints the value of the flow variable \<open>v\<close> and returns
  the map from the edges to their flows, and nothing else; if the engine gives no
  solution, the function prints that the problem has no solution and returns \<open>None\<close>.
  With an engine that keeps its contract, a flow map is returned exactly when some
  assignment satisfies the constraints.
\<close>

theorem solve_outcomes:
  assumes "build_network_graph schedule_file = Inr G"
  shows "(solver (flow_model G (bal_pool = Some True)) = None \<longrightarrow>
            solve_min_flow_prob solver schedule_file bal_pool = Inr (No_solution, None))
       \<and> (\<forall>a. solver (flow_model G (bal_pool = Some True)) = Some a \<longrightarrow>
            solve_min_flow_prob solver schedule_file bal_pool =
              Inr (Minimum_trailers (a Flow_value),
                   Some (map (\<lambda>(i, j). ((i, j), a (Flow i j))) (edge_list G))))
       \<and> (solves solver (flow_model G (bal_pool = Some True)) \<longrightarrow>
            ((\<exists>a. feasible (flow_model G (bal_pool = Some True)) a) \<longleftrightarrow>
             (\<exists>v sol. solve_min_flow_prob solver schedule_file bal_pool = Inr (Minimum_trailers v, Some sol))))"
proof -
  define b where "b = (bal_pool = Some True)"
  have b: "(case bal_pool of None \<Rightarrow> False | Some b \<Rightarrow> b) = b"
    by (cases bal_pool) (auto simp: b_def)
  have r: "solve_min_flow_prob solver schedule_file bal_pool =
      (case solver (flow_model G b) of
         None \<Rightarrow> Inr (No_solution, None)
       | Some a \<Rightarrow> Inr (Minimum_trailers (a Flow_value),
                        Some (map (\<lambda>(i, j). ((i, j), a (Flow i j))) (edge_list G))))"
    using assms by (simp add: solve_min_flow_prob_def solve_min_flow_prob_from_def b
        build_network_graph_def)
  show ?thesis
    unfolding b_def[symmetric] r
    by (cases "solver (flow_model G b)") (auto simp: solves_def)
qed

theorem solve_outcomes_witness:
  "build_network_graph drained = Inr drained_graph
   \<and> solves (\<lambda>m. None) (flow_model drained_graph (Some True = Some True))
   \<and> solve_min_flow_prob (\<lambda>m. None) drained (Some True) = Inr (No_solution, None)
   \<and> \<not> (\<exists>a. feasible (flow_model drained_graph (Some True = Some True)) a)"
proof -
  have g: "build_network_graph drained = Inr drained_graph"
    by (simp add: build_network_graph_def drained_read drained_build)
  have s: "solves (\<lambda>m. None) (flow_model drained_graph (Some True = Some True))"
    by (simp add: solves_def drained_infeasible)
  from solve_outcomes[OF g, of "\<lambda>m. None" "Some True"] s g show ?thesis by simp
qed

section \<open>Repeated route and sequence numbers\<close>

text \<open>
  C8, as the claim states it, fails: the legs of the sheet \<open>repeated\<close> carry the pair
  (1, 1) twice and the graph is built.
\<close>

theorem repeated_pair_is_accepted:
  "\<not> distinct (map (\<lambda>l. (Route l, Sequence l)) (read_driver_schedule repeated None))
   \<and> build_network_graph repeated = Inr repeated_graph"
proof -
  have "\<not> distinct (map (\<lambda>l. (Route l, Sequence l)) repeated_legs)"
    by (simp add: repeated_legs_def mk_leg_def)
  then show ?thesis
    by (simp add: build_network_graph_def repeated_read repeated_build)
qed

lemma nodes_tagged_fail:
  "\<exists>(n, a) \<in> set ns. tag a = None \<Longrightarrow> nodes_tagged tg ns = Inl KeyError"
proof (induction ns)
  case Nil
  then show ?case by simp
next
  case (Cons p ns)
  obtain n a where p: "p = (n, a)" by (cases p)
  show ?case
  proof (cases "tag a")
    case None
    then show ?thesis by (simp add: p)
  next
    case (Some t)
    with Cons.prems p have "\<exists>(n, a) \<in> set ns. tag a = None" by auto
    from Cons.IH[OF this] Some show ?thesis by (simp add: p)
  qed
qed

lemma trailer_edges_Inl:
  "trailer_edges G = Inl e \<longleftrightarrow> e = KeyError \<and> \<not> (\<forall>(n, a) \<in> set (nodes G). tag a \<noteq> None)"
proof (cases "\<forall>(n, a) \<in> set (nodes G). tag a \<noteq> None")
  case True
  from nodes_tagged_total[OF True] show ?thesis
    using True by (simp add: trailer_edges_def Let_def)
next
  case False
  then have "\<exists>(n, a) \<in> set (nodes G). tag a = None" by blast
  from nodes_tagged_fail[OF this] show ?thesis
    using False by (auto simp: trailer_edges_def)
qed

text \<open>Which exception the construction ends with, if any.\<close>

lemma build_Inl_iff:
  "build_network_graph_from ls = Inl e \<longleftrightarrow>
     (if ls = [] then e = KeyError
      else if legs_in_range ls then e = KeyError \<and> \<not> DestZip ` set ls \<subseteq> Zip ` set ls
      else e = OutOfBoundsDatetime)"
proof (cases "ls = []")
  case True
  then show ?thesis by (auto simp: build_plain)
next
  case ne: False
  show ?thesis
  proof (cases "legs_in_range ls")
    case True
    have "build_network_graph_from ls = trailer_edges (plain_pool_graph ls)"
      using ne True by (simp add: build_plain)
    then show ?thesis using ne True
      by (simp only: trailer_edges_Inl all_tagged_iff if_True if_False)
  next
    case False
    then show ?thesis using ne by (auto simp: build_plain)
  qed
qed

text \<open>The rows of a frame without their route and sequence numbers.\<close>

lemma same_rows_same_outcome:
  assumes "map (\<lambda>l. (Zip l, ArvDTTM l, NxtArvDTTM l, DestZip l)) ls' =
           map (\<lambda>l. (Zip l, ArvDTTM l, NxtArvDTTM l, DestZip l)) ls"
  shows "(ls' = []) = (ls = [])" and "legs_in_range ls' = legs_in_range ls"
    and "Zip ` set ls' = Zip ` set ls" and "DestZip ` set ls' = DestZip ` set ls"
proof -
  have len: "length ls' = length ls" using arg_cong[OF assms, of length] by simp
  then show "(ls' = []) = (ls = [])" by auto
  from len assms
  have "list_all (\<lambda>x. ts_ok (ArvDTTM x - td_hours preload_time)) ls' =
          list_all (\<lambda>x. ts_ok (ArvDTTM x - td_hours preload_time)) ls
      \<and> list_all (\<lambda>x. ts_ok (NxtArvDTTM x + td_hours drop_time)) ls' =
          list_all (\<lambda>x. ts_ok (NxtArvDTTM x + td_hours drop_time)) ls
      \<and> Zip ` set ls' = Zip ` set ls \<and> DestZip ` set ls' = DestZip ` set ls"
  proof (induction ls' ls rule: list_induct2)
    case Nil
    show ?case by simp
  next
    case (Cons x xs y ys)
    from Cons.prems have h: "Zip x = Zip y" "ArvDTTM x = ArvDTTM y" "NxtArvDTTM x = NxtArvDTTM y"
      "DestZip x = DestZip y" and t: "map (\<lambda>l. (Zip l, ArvDTTM l, NxtArvDTTM l, DestZip l)) xs =
           map (\<lambda>l. (Zip l, ArvDTTM l, NxtArvDTTM l, DestZip l)) ys"
      by simp_all
    from Cons.IH[OF t] h show ?case by simp
  qed
  then show "legs_in_range ls' = legs_in_range ls" "Zip ` set ls' = Zip ` set ls"
    "DestZip ` set ls' = DestZip ` set ls" by (simp_all add: legs_in_range_def)
qed

text \<open>
  C8, amended. The construction of the graph does not look at whether (route,
  sequence) pairs repeat and has no error for it: whether it returns a graph, and
  which exception it raises otherwise, is the same for any two frames that differ in
  the route and sequence numbers of their rows only, so a frame with a repeated pair
  is accepted whenever the same rows with distinct pairs are. In a graph that is
  returned, the start node and the end node of a leg carry the attributes of a leg
  with the same pair (the last one in the frame), so legs that share a pair share the
  two nodes.
\<close>

theorem build_never_rejects_repeated_pairs:
  "(\<forall>ls'. map (\<lambda>l. (Zip l, ArvDTTM l, NxtArvDTTM l, DestZip l)) ls' =
           map (\<lambda>l. (Zip l, ArvDTTM l, NxtArvDTTM l, DestZip l)) ls \<longrightarrow>
       ((\<exists>G'. build_network_graph_from ls' = Inr G') \<longleftrightarrow> (\<exists>G. build_network_graph_from ls = Inr G))
       \<and> (\<forall>e. build_network_graph_from ls' = Inl e \<longleftrightarrow> build_network_graph_from ls = Inl e))
   \<and> (\<forall>G. build_network_graph_from ls = Inr G \<longrightarrow>
        (\<forall>l \<in> set ls. \<exists>l' \<in> set ls.
            last_leg ls (Route l, Sequence l) = Some l'
            \<and> Route l' = Route l \<and> Sequence l' = Sequence l
            \<and> node_attrs G (start_node l) = start_attrs l'
            \<and> node_attrs G (end_node l) = end_attrs l'))"
proof (intro conjI allI impI ballI)
  fix ls' :: "leg list"
  assume m: "map (\<lambda>l. (Zip l, ArvDTTM l, NxtArvDTTM l, DestZip l)) ls' =
             map (\<lambda>l. (Zip l, ArvDTTM l, NxtArvDTTM l, DestZip l)) ls"
  show "(\<exists>G'. build_network_graph_from ls' = Inr G') \<longleftrightarrow> (\<exists>G. build_network_graph_from ls = Inr G)"
    unfolding build_succeeds_iff same_rows_same_outcome[OF m] ..
  show "build_network_graph_from ls' = Inl e \<longleftrightarrow> build_network_graph_from ls = Inl e" for e
    unfolding build_Inl_iff same_rows_same_outcome[OF m] ..
next
  fix G l assume G: "build_network_graph_from ls = Inr G" and l: "l \<in> set ls"
  from last_leg_exists[OF l] obtain l' where l': "last_leg ls (Route l, Sequence l) = Some l'" by blast
  from last_leg_Some[OF l'] have "l' \<in> set ls" "Route l' = Route l" "Sequence l' = Sequence l" by simp_all
  moreover have "node_attrs G (start_node l) = start_attrs l'" "node_attrs G (end_node l) = end_attrs l'"
    unfolding start_node_def end_node_def build_node_attrs[OF G] by (simp_all add: l')
  ultimately show "\<exists>l' \<in> set ls. last_leg ls (Route l, Sequence l) = Some l'
            \<and> Route l' = Route l \<and> Sequence l' = Sequence l
            \<and> node_attrs G (start_node l) = start_attrs l'
            \<and> node_attrs G (end_node l) = end_attrs l'"
    using l' by blast
qed

theorem build_never_rejects_repeated_pairs_witness:
  "map (\<lambda>l. (Zip l, ArvDTTM l, NxtArvDTTM l, DestZip l)) [mk_leg 1 1 7 0 10 7, mk_leg 1 2 7 10 20 7] =
   map (\<lambda>l. (Zip l, ArvDTTM l, NxtArvDTTM l, DestZip l)) repeated_legs
   \<and> build_network_graph_from repeated_legs = Inr repeated_graph
   \<and> (\<exists>G'. build_network_graph_from [mk_leg 1 1 7 0 10 7, mk_leg 1 2 7 10 20 7] = Inr G')
   \<and> mk_leg 1 1 7 0 10 7 \<in> set repeated_legs
   \<and> node_attrs repeated_graph (start_node (mk_leg 1 1 7 0 10 7)) = start_attrs (mk_leg 1 1 7 10 20 7)
   \<and> node_attrs repeated_graph (end_node (mk_leg 1 1 7 0 10 7)) = end_attrs (mk_leg 1 1 7 10 20 7)"
proof -
  have m: "map (\<lambda>l. (Zip l, ArvDTTM l, NxtArvDTTM l, DestZip l)) [mk_leg 1 1 7 0 10 7, mk_leg 1 2 7 10 20 7] =
           map (\<lambda>l. (Zip l, ArvDTTM l, NxtArvDTTM l, DestZip l)) repeated_legs"
    by (simp add: repeated_legs_def mk_leg_def)
  have l: "mk_leg 1 1 7 0 10 7 \<in> set repeated_legs" by (simp add: repeated_legs_def)
  have ll: "last_leg repeated_legs (Route (mk_leg 1 1 7 0 10 7), Sequence (mk_leg 1 1 7 0 10 7))
      = Some (mk_leg 1 1 7 10 20 7)"
    by (simp add: last_leg_def repeated_legs_def mk_leg_def)
  note inst = build_never_rejects_repeated_pairs[of repeated_legs]
  from conjunct1[OF inst, THEN spec, THEN mp, OF m]
  have "(\<exists>G'. build_network_graph_from [mk_leg 1 1 7 0 10 7, mk_leg 1 2 7 10 20 7] = Inr G')
      \<longleftrightarrow> (\<exists>G. build_network_graph_from repeated_legs = Inr G)" by (rule conjunct1)
  moreover have "\<exists>G. build_network_graph_from repeated_legs = Inr G"
    using repeated_build by (rule exI)
  ultimately have ex: "\<exists>G'. build_network_graph_from [mk_leg 1 1 7 0 10 7, mk_leg 1 2 7 10 20 7] = Inr G'"
    by (rule iffD2)
  from conjunct2[OF inst, THEN spec, THEN mp, OF repeated_build, THEN bspec, OF l]
  obtain l' where l': "last_leg repeated_legs (Route (mk_leg 1 1 7 0 10 7), Sequence (mk_leg 1 1 7 0 10 7)) = Some l'"
    and a: "node_attrs repeated_graph (start_node (mk_leg 1 1 7 0 10 7)) = start_attrs l'"
           "node_attrs repeated_graph (end_node (mk_leg 1 1 7 0 10 7)) = end_attrs l'"
    by blast
  from l' ll have "l' = mk_leg 1 1 7 10 20 7" by simp
  with a have "node_attrs repeated_graph (start_node (mk_leg 1 1 7 0 10 7)) = start_attrs (mk_leg 1 1 7 10 20 7)"
    "node_attrs repeated_graph (end_node (mk_leg 1 1 7 0 10 7)) = end_attrs (mk_leg 1 1 7 10 20 7)"
    by simp_all
  with m repeated_build ex l show ?thesis by (intro conjI)
qed

section \<open>Cycles\<close>

lemma build_edge_cases:
  assumes "build_network_graph_from ls = Inr G" and "e \<in> set (edge_list G)"
  shows "(\<exists>la \<in> set ls. \<exists>lb \<in> set ls. e = (end_node la, start_node lb)
            \<and> same_trailer_ok (node_attrs G (end_node la)) (node_attrs G (start_node lb)))
       \<or> (\<exists>l \<in> set ls. e = (start_node l, end_node l))
       \<or> (\<exists>l \<in> set ls. e = (end_node l, Loc (DestZip l) Pool_in))
       \<or> (\<exists>l \<in> set ls. e = (Loc (Zip l) Pool_out, start_node l))
       \<or> (\<exists>l \<in> set ls. e = (Loc (Zip l) Pool_in, Snk))
       \<or> (\<exists>l \<in> set ls. e = (Src, Loc (Zip l) Pool_out))"
proof -
  define R where "R = {(i, j). i \<in> end_node ` set ls \<and> j \<in> start_node ` set ls \<and>
                         same_trailer_ok (node_attrs G i) (node_attrs G j)}"
  define U where "U = {(i, j). i \<in> start_node ` set ls \<and> j \<in> end_node ` set ls \<and> route_seq i = route_seq j}"
  have tag: "map_of (edges G) e = (if e \<in> R then Some same_trailer
      else if e \<in> U then Some trailer_utilization else map_of (edges (plain_pool_graph ls)) e)"
    unfolding build_Inr(3)[OF assms(1)] U_def R_def ..
  from assms(2) have ne: "map_of (edges G) e \<noteq> None"
    by (simp add: edge_list_def map_of_eq_None_iff)
  show ?thesis
  proof (cases "e \<in> R")
    case True
    then have "\<exists>la \<in> set ls. \<exists>lb \<in> set ls. e = (end_node la, start_node lb)
            \<and> same_trailer_ok (node_attrs G (end_node la)) (node_attrs G (start_node lb))"
      unfolding R_def by (cases e) auto
    then show ?thesis by blast
  next
    case False
    show ?thesis
    proof (cases "e \<in> U")
      case True
      then have "edge_tag_of G e = Some trailer_utilization"
        using False by (simp add: edge_tag_of_def tag)
      then have "\<exists>l \<in> set ls. e = (start_node l, end_node l)"
        by (simp add: utilization_edge_iff[OF assms(1)])
      then show ?thesis by blast
    next
      case nU: False
      with False ne have "map_of (edges (plain_pool_graph ls)) e \<noteq> None" by (simp add: tag)
      then have "e \<in> (\<lambda>x. (end_node x, Loc (DestZip x) Pool_in)) ` set ls
        \<or> e \<in> (\<lambda>x. (Loc (Zip x) Pool_out, start_node x)) ` set ls
        \<or> e \<in> (\<lambda>x. (Loc (Zip x) Pool_in, Snk)) ` set ls
        \<or> e \<in> (\<lambda>x. (Src, Loc (Zip x) Pool_out)) ` set ls"
        unfolding pool_graph_edges by (simp split: if_splits)
      then show ?thesis by blast
    qed
  qed
qed

lemma rank_start:
  assumes "build_network_graph_from ls = Inr G" and "last_leg ls (Route l, Sequence l) = Some l'"
  shows "node_rank G (start_node l) = (1, ArvDTTM l' - td_hours preload_time, 0)"
    and "node_rank G (end_node l) = (1, NxtArvDTTM l' + td_hours drop_time, 1)"
  unfolding node_rank_def start_node_def end_node_def
  by (simp_all add: build_node_attrs[OF assms(1)] assms(2) start_attrs_def end_attrs_def)

lemma rank_trailer_fst:
  "fst (node_rank G (start_node l)) = 1" "fst (node_rank G (end_node l)) = 1"
  by (simp_all add: node_rank_def start_node_def end_node_def split: attrs.splits)

lemma rank_increases:
  assumes "build_network_graph_from ls = Inr G"
      and "\<forall>l \<in> set ls. ArvDTTM l - td_hours preload_time \<le> NxtArvDTTM l + td_hours drop_time"
      and "(i, j) \<in> inner_edges G"
  shows "node_rank G i < node_rank G j"
proof -
  from assms(3) have e: "(i, j) \<in> set (edge_list G)" and t: "i \<noteq> Src" "j \<noteq> Snk"
    by (simp_all add: inner_edges_def)
  from build_edge_cases[OF assms(1) e] t
  consider (same) la lb where "la \<in> set ls" "lb \<in> set ls" "i = end_node la" "j = start_node lb"
      "same_trailer_ok (node_attrs G (end_node la)) (node_attrs G (start_node lb))"
    | (util) l where "l \<in> set ls" "i = start_node l" "j = end_node l"
    | (rtrn) l where "l \<in> set ls" "i = end_node l" "j = Loc (DestZip l) Pool_in"
    | (supp) l where "l \<in> set ls" "i = Loc (Zip l) Pool_out" "j = start_node l"
    by auto
  then show ?thesis
  proof cases
    case same
    from last_leg_exists[OF same(1)] obtain la' where la': "last_leg ls (Route la, Sequence la) = Some la'" by blast
    from last_leg_exists[OF same(2)] obtain lb' where lb': "last_leg ls (Route lb, Sequence lb) = Some lb'" by blast
    have "node_attrs G (end_node la) = end_attrs la'" "node_attrs G (start_node lb) = start_attrs lb'"
      unfolding start_node_def end_node_def build_node_attrs[OF assms(1)] by (simp_all add: la' lb')
    with same(5) have "NxtArvDTTM la' + td_hours drop_time < ArvDTTM lb' - td_hours preload_time"
      by (simp add: start_attrs_def end_attrs_def)
    then show ?thesis
      unfolding same(3,4) rank_start(2)[OF assms(1) la'] rank_start(1)[OF assms(1) lb'] by simp
  next
    case util
    from last_leg_exists[OF util(1)] obtain l' where l': "last_leg ls (Route l, Sequence l) = Some l'" by blast
    from last_leg_Some[OF l'] assms(2)
    have "ArvDTTM l' - td_hours preload_time \<le> NxtArvDTTM l' + td_hours drop_time" by blast
    then show ?thesis
      unfolding util(2,3) rank_start[OF assms(1) l'] by auto
  next
    case rtrn
    have "node_rank G (Loc (DestZip l) Pool_in) = (2, 0, 0)" by (simp add: node_rank_def)
    moreover obtain a b where "node_rank G (end_node l) = (1, a, b)"
      using rank_trailer_fst(2)[of G l] by (cases "node_rank G (end_node l)") auto
    ultimately show ?thesis unfolding rtrn(2,3) by simp
  next
    case supp
    have "node_rank G (Loc (Zip l) Pool_out) = (0, 0, 0)" by (simp add: node_rank_def)
    moreover obtain a b where "node_rank G (start_node l) = (1, a, b)"
      using rank_trailer_fst(1)[of G l] by (cases "node_rank G (start_node l)") auto
    ultimately show ?thesis unfolding supp(2,3) by simp
  qed
qed

text \<open>
  C9, as the claim states it, fails. The sheet \<open>backwards\<close> gives one leg whose trailer is
  released before it is ready, at the location where the leg starts: the graph holds
  the edge from the start node of the leg to its end node and a same-trailer edge back.
\<close>

theorem backwards_graph_has_cycle:
  "build_network_graph backwards = Inr backwards_graph \<and> \<not> acyclic (inner_edges backwards_graph)"
proof -
  have a: "(Trl 1 1 Trl_start, Trl 1 1 Trl_end) \<in> inner_edges backwards_graph"
    and b: "(Trl 1 1 Trl_end, Trl 1 1 Trl_start) \<in> inner_edges backwards_graph"
    by (simp_all add: inner_edges_def backwards_graph_def edge_list_def)
  then have "(Trl 1 1 Trl_start, Trl 1 1 Trl_start) \<in> (inner_edges backwards_graph)\<^sup>+"
    by (rule trancl_into_trancl2[OF _ r_into_trancl])
  then have "\<not> acyclic (inner_edges backwards_graph)" unfolding acyclic_def by blast
  then show ?thesis by (simp add: build_network_graph_def backwards_read backwards_build)
qed

text \<open>
  C9, amended. When no leg has its ready time (arrival minus the preload time) after
  its own release time (next arrival plus the drop time), the built graph has no
  directed cycle among the pool nodes and the trailer nodes.
\<close>

theorem inner_graph_acyclic:
  assumes "build_network_graph_from ls = Inr G"
      and "\<forall>l \<in> set ls. ArvDTTM l - td_hours preload_time \<le> NxtArvDTTM l + td_hours drop_time"
  shows "acyclic (inner_edges G)"
proof -
  have "acyclic ((inner_edges G)\<inverse>)"
  proof (rule acyclicI_order[where f = "node_rank G"])
    fix a b assume "(a, b) \<in> (inner_edges G)\<inverse>"
    then have "(b, a) \<in> inner_edges G" by simp
    then show "node_rank G b < node_rank G a" by (rule rank_increases[OF assms])
  qed
  then show ?thesis by simp
qed

theorem inner_graph_acyclic_witness:
  "build_network_graph_from one_route_legs = Inr one_route_graph
   \<and> one_route_legs = [mk_leg 1 1 7 0 100 7, mk_leg 1 2 7 100 200 7]
   \<and> ArvDTTM (mk_leg 1 1 7 0 100 7) - td_hours preload_time
       \<le> NxtArvDTTM (mk_leg 1 1 7 0 100 7) + td_hours drop_time
   \<and> ArvDTTM (mk_leg 1 2 7 100 200 7) - td_hours preload_time
       \<le> NxtArvDTTM (mk_leg 1 2 7 100 200 7) + td_hours drop_time
   \<and> acyclic (inner_edges one_route_graph)"
proof -
  have h: "\<forall>l \<in> set one_route_legs. ArvDTTM l - td_hours preload_time \<le> NxtArvDTTM l + td_hours drop_time"
    by (simp add: one_route_legs_def mk_leg_def td_hours_def preload_time_def drop_time_def)
  from inner_graph_acyclic[OF one_route_build h] one_route_build show ?thesis
    by (simp add: one_route_legs_def mk_leg_def td_hours_def preload_time_def drop_time_def)
qed

section \<open>Legs from stops\<close>

lemma length_shift_m1 [simp]: "length (shift_m1 xs) = length xs"
  by (cases xs) (simp_all add: shift_m1_def)

lemma nth_shift_m1:
  "i < length xs \<Longrightarrow> shift_m1 xs ! i = (if Suc i < length xs then Some (xs ! Suc i) else None)"
proof (cases xs)
  case Nil
  then show "i < length xs \<Longrightarrow> ?thesis" by simp
next
  case (Cons x ys)
  assume "i < length xs"
  then have "i \<le> length ys" using Cons by simp
  then show ?thesis
    unfolding Cons shift_m1_def by (auto simp: nth_append less_Suc_eq_le)
qed

lemma transform_max_attained:
  assumes "s \<in> set df"
  shows "\<exists>s' \<in> set df. Route s' = Route s \<and> Sequence s' = transform_max df (Route s)"
    and "Sequence s \<le> transform_max df (Route s)"
proof -
  let ?S = "set (map Sequence (filter (\<lambda>x. Route x = Route s) df))"
  have fin: "finite ?S" by simp
  have mem: "Sequence s \<in> ?S" using assms by auto
  then have ne: "?S \<noteq> {}" by auto
  from Max_in[OF fin ne] have "transform_max df (Route s) \<in> ?S" by (simp add: transform_max_def)
  then show "\<exists>s' \<in> set df. Route s' = Route s \<and> Sequence s' = transform_max df (Route s)" by auto
  from Max_ge[OF fin mem] show "Sequence s \<le> transform_max df (Route s)" by (simp add: transform_max_def)
qed

text \<open>In a frame sorted by (Route, Sequence), a row that does not carry the maximal
  sequence number of its route is followed by a row of the same route.\<close>

lemma next_row_same_route:
  assumes "sorted (map (\<lambda>s. (Route s, Sequence s)) df)" and "i < length df"
      and "transform_max df (Route (df ! i)) \<noteq> Sequence (df ! i)"
  shows "Suc i < length df \<and> Route (df ! Suc i) = Route (df ! i)"
proof -
  let ?k = "\<lambda>s. (Route s, Sequence s)"
  have mono: "?k (df ! a) \<le> ?k (df ! b)" if "a \<le> b" "b < length df" for a b
    using sorted_nth_mono[OF assms(1), of a b] that by simp
  from transform_max_attained[of "df ! i" df] assms(2)
  obtain s' where s': "s' \<in> set df" "Route s' = Route (df ! i)"
      "Sequence s' = transform_max df (Route (df ! i))"
    and le: "Sequence (df ! i) \<le> transform_max df (Route (df ! i))"
    by auto
  from s'(1) obtain j where j: "j < length df" "df ! j = s'" by (auto simp: in_set_conv_nth)
  from le assms(3) s'(3) have lt: "Sequence (df ! i) < Sequence s'" by simp
  have "i < j"
  proof (rule ccontr)
    assume "\<not> i < j"
    then have "?k (df ! j) \<le> ?k (df ! i)" using mono[of j i] assms(2) by simp
    with lt s'(2) j(2) show False by simp
  qed
  then have len: "Suc i < length df" using j(1) by simp
  have "?k (df ! i) \<le> ?k (df ! Suc i)" using mono[of i "Suc i"] len by simp
  moreover have "?k (df ! Suc i) \<le> ?k (df ! j)" using mono[of "Suc i" j] \<open>i < j\<close> j(1) by simp
  ultimately have "Route (df ! i) \<le> Route (df ! Suc i)" "Route (df ! Suc i) \<le> Route (df ! j)"
    by (auto simp: less_eq_prod_simp)
  with s'(2) j(2) have "Route (df ! Suc i) = Route (df ! i)" by simp
  with len show ?thesis by simp
qed

lemma kept_rows_nth:
  assumes "p \<in> set (kept_rows file)"
  shows "\<exists>i. Suc i < length file
            \<and> p = (sort_key (\<lambda>s. (Route s, Sequence s)) file ! i,
                   Some (sort_key (\<lambda>s. (Route s, Sequence s)) file ! Suc i))
            \<and> Route (sort_key (\<lambda>s. (Route s, Sequence s)) file ! Suc i) =
              Route (sort_key (\<lambda>s. (Route s, Sequence s)) file ! i)
            \<and> transform_max (sort_key (\<lambda>s. (Route s, Sequence s)) file) (Route (fst p)) \<noteq> Sequence (fst p)"
proof -
  define df where "df = sort_key (\<lambda>s. (Route s, Sequence s)) file"
  have srt: "sorted (map (\<lambda>s. (Route s, Sequence s)) df)" unfolding df_def by (rule sorted_sort_key)
  from assms have z: "p \<in> set (zip df (shift_m1 df))"
    and P: "transform_max df (Route (fst p)) \<noteq> Sequence (fst p)"
    by (auto simp: kept_rows_def Let_def df_def)
  from z obtain i where i: "i < length df" "df ! i = fst p" "shift_m1 df ! i = snd p"
    by (auto simp: in_set_zip)
  from next_row_same_route[OF srt i(1)] P i(2)
  have n: "Suc i < length df" "Route (df ! Suc i) = Route (df ! i)" by simp_all
  from i(3) n(1) have "snd p = Some (df ! Suc i)" by (simp add: nth_shift_m1[OF i(1)])
  with i(2) have "p = (df ! i, Some (df ! Suc i))" by (cases p) simp
  with n P show ?thesis unfolding df_def[symmetric] by (intro exI[of _ i]) (simp add: df_def)
qed

lemma kept_rows_have_next: "(s, n) \<in> set (kept_rows file) \<Longrightarrow> n \<noteq> None"
  using kept_rows_nth[of "(s, n)" "file"] by auto


lemma map_filter_all_some:
  "(\<forall>x \<in> set xs. \<exists>y. g x = Some y \<and> h y = k x) \<Longrightarrow> map h (List.map_filter g xs) = map k xs"
  by (induction xs) (auto simp: List.map_filter_simps)

lemma legs_are_kept_rows:
  "map (\<lambda>l. (Route l, Sequence l, Zip l, ArvDTTM l)) (read_driver_schedule file None) =
   map (\<lambda>s. (Route s, Sequence s, Zip s, ArvDTTM s))
     (filter (\<lambda>s. transform_max (sort_key (\<lambda>s. (Route s, Sequence s)) file) (Route s) \<noteq> Sequence s)
        (sort_key (\<lambda>s. (Route s, Sequence s)) file))"
proof -
  define df where "df = sort_key (\<lambda>s. (Route s, Sequence s)) file"
  define P where "P = (\<lambda>s :: stop. transform_max df (Route s) \<noteq> Sequence s)"
  have k: "kept_rows file = filter (P \<circ> fst) (zip df (shift_m1 df))"
    by (simp add: kept_rows_def Let_def df_def P_def comp_def case_prod_unfold)
  have "\<forall>x \<in> set (kept_rows file). \<exists>y. leg_of x = Some y
      \<and> (Route y, Sequence y, Zip y, ArvDTTM y) = (Route (fst x), Sequence (fst x), Zip (fst x), ArvDTTM (fst x))"
  proof
    fix x assume "x \<in> set (kept_rows file)"
    then obtain s n where "x = (s, Some n)" using kept_rows_nth[of x "file"] by blast
    then show "\<exists>y. leg_of x = Some y
      \<and> (Route y, Sequence y, Zip y, ArvDTTM y) = (Route (fst x), Sequence (fst x), Zip (fst x), ArvDTTM (fst x))"
      by simp
  qed
  from map_filter_all_some[OF this]
  have "map (\<lambda>l. (Route l, Sequence l, Zip l, ArvDTTM l)) (read_driver_schedule file None) =
        map (\<lambda>x. (Route (fst x), Sequence (fst x), Zip (fst x), ArvDTTM (fst x))) (kept_rows file)"
    by (simp add: read_driver_schedule_def)
  also have "\<dots> = map (\<lambda>s. (Route s, Sequence s, Zip s, ArvDTTM s)) (map fst (kept_rows file))"
    by (simp add: comp_def)
  also have "map fst (kept_rows file) = filter P (map fst (zip df (shift_m1 df)))"
    unfolding k by (rule filter_map[symmetric])
  also have "map fst (zip df (shift_m1 df)) = df" by simp
  finally show ?thesis unfolding P_def df_def .
qed

lemma leg_from_consecutive_rows:
  assumes "l \<in> set (read_driver_schedule file None)"
  shows "\<exists>i. Suc i < length file
          \<and> Route (sort_key (\<lambda>s. (Route s, Sequence s)) file ! Suc i) =
            Route (sort_key (\<lambda>s. (Route s, Sequence s)) file ! i)
          \<and> transform_max (sort_key (\<lambda>s. (Route s, Sequence s)) file) (Route l) \<noteq> Sequence l
          \<and> l = \<lparr>Route = Route (sort_key (\<lambda>s. (Route s, Sequence s)) file ! i),
                 Sequence = Sequence (sort_key (\<lambda>s. (Route s, Sequence s)) file ! i),
                 Zip = Zip (sort_key (\<lambda>s. (Route s, Sequence s)) file ! i),
                 ArvDTTM = ArvDTTM (sort_key (\<lambda>s. (Route s, Sequence s)) file ! i),
                 NxtArvDTTM = ArvDTTM (sort_key (\<lambda>s. (Route s, Sequence s)) file ! Suc i),
                 DestZip = Zip (sort_key (\<lambda>s. (Route s, Sequence s)) file ! Suc i)\<rparr>"
proof -
  from assms obtain p where p: "p \<in> set (kept_rows file)" "leg_of p = Some l"
    by (auto simp: read_driver_schedule_def List.map_filter_def)
  from kept_rows_nth[OF p(1)] obtain i where i: "Suc i < length file"
      "p = (sort_key (\<lambda>s. (Route s, Sequence s)) file ! i,
            Some (sort_key (\<lambda>s. (Route s, Sequence s)) file ! Suc i))"
      "Route (sort_key (\<lambda>s. (Route s, Sequence s)) file ! Suc i) =
       Route (sort_key (\<lambda>s. (Route s, Sequence s)) file ! i)"
      "transform_max (sort_key (\<lambda>s. (Route s, Sequence s)) file) (Route (fst p)) \<noteq> Sequence (fst p)"
    by blast
  from p(2) i(2) have l: "l = \<lparr>Route = Route (sort_key (\<lambda>s. (Route s, Sequence s)) file ! i),
                 Sequence = Sequence (sort_key (\<lambda>s. (Route s, Sequence s)) file ! i),
                 Zip = Zip (sort_key (\<lambda>s. (Route s, Sequence s)) file ! i),
                 ArvDTTM = ArvDTTM (sort_key (\<lambda>s. (Route s, Sequence s)) file ! i),
                 NxtArvDTTM = ArvDTTM (sort_key (\<lambda>s. (Route s, Sequence s)) file ! Suc i),
                 DestZip = Zip (sort_key (\<lambda>s. (Route s, Sequence s)) file ! Suc i)\<rparr>"
    by simp
  moreover from i(4) i(2) l
  have "transform_max (sort_key (\<lambda>s. (Route s, Sequence s)) file) (Route l) \<noteq> Sequence l" by simp
  ultimately show ?thesis using i(1,3) by blast
qed


text \<open>
  On the sheet \<open>repeated\<close> the first leg arrives at hour 0 and its next stop at hour 10,
  so its ready time is hour -6 and its release time hour 18; the nodes of the leg carry
  hour 4 and hour 28, the times of the second row with the pair (1, 1).
\<close>

theorem repeated_leg_carries_later_times:
  "build_network_graph repeated = Inr repeated_graph
   \<and> mk_leg 1 1 7 0 10 7 \<in> set (read_driver_schedule repeated None)
   \<and> ArvDTTM (mk_leg 1 1 7 0 10 7) - td_hours preload_time = - 21600
   \<and> NxtArvDTTM (mk_leg 1 1 7 0 10 7) + td_hours drop_time = 64800
   \<and> node_attrs repeated_graph (start_node (mk_leg 1 1 7 0 10 7)) = Trailer_start 7 14400
   \<and> node_attrs repeated_graph (end_node (mk_leg 1 1 7 0 10 7)) = Trailer_end 7 100800"
  by (simp add: build_network_graph_def repeated_read repeated_build)
     (simp add: repeated_legs_def repeated_graph_def mk_leg_def td_hours_def drop_time_def
        preload_time_def end_node_def start_node_def node_attrs_def)

text \<open>
  C5, amended. The rows of the sorted frame that give a leg are exactly the rows that
  do not carry the maximal sequence number of their route, in their order: the last
  stop of a route gives no leg. Every leg pairs a row with the row that follows it in
  the sorted frame, which is a stop of the same route: the leg takes its destination
  and its next arrival from that row. In a graph that was built, the start node of a
  leg \<open>l\<close> carries the origin and the arrival time minus 6 hours, and its end node the
  destination and the arrival time of the next stop plus 8 hours, of the last leg \<open>l'\<close>
  of the frame with the (route, sequence) pair of \<open>l\<close>, which is \<open>l\<close> itself when no
  other leg has the pair; the two times of every leg are representable timestamps.
\<close>

theorem legs_from_stops:
  "(let df = sort_key (\<lambda>s. (Route s, Sequence s)) file;
        legs = read_driver_schedule file None
    in map (\<lambda>l. (Route l, Sequence l, Zip l, ArvDTTM l)) legs =
         map (\<lambda>s. (Route s, Sequence s, Zip s, ArvDTTM s))
           (filter (\<lambda>s. transform_max df (Route s) \<noteq> Sequence s) df)
       \<and> (\<forall>l \<in> set legs. \<exists>i. Suc i < length df
              \<and> Route (df ! Suc i) = Route (df ! i)
              \<and> transform_max df (Route l) \<noteq> Sequence l
              \<and> l = \<lparr>Route = Route (df ! i), Sequence = Sequence (df ! i), Zip = Zip (df ! i),
                     ArvDTTM = ArvDTTM (df ! i),
                     NxtArvDTTM = ArvDTTM (df ! Suc i), DestZip = Zip (df ! Suc i)\<rparr>)
       \<and> (\<forall>G. build_network_graph file = Inr G \<longrightarrow>
            (\<forall>l \<in> set legs. \<exists>l' \<in> set legs.
               last_leg legs (Route l, Sequence l) = Some l'
               \<and> Route l' = Route l \<and> Sequence l' = Sequence l
               \<and> ((\<forall>k \<in> set legs. Route k = Route l \<and> Sequence k = Sequence l \<longrightarrow> k = l) \<longrightarrow> l' = l)
               \<and> node_attrs G (start_node l) = Trailer_start (Zip l') (ArvDTTM l' - 6 * 3600)
               \<and> node_attrs G (end_node l) = Trailer_end (DestZip l') (NxtArvDTTM l' + 8 * 3600)
               \<and> ts_ok (ArvDTTM l - 6 * 3600) \<and> ts_ok (NxtArvDTTM l + 8 * 3600))))"
proof -
  have c: "\<exists>l' \<in> set (read_driver_schedule file None).
               last_leg (read_driver_schedule file None) (Route l, Sequence l) = Some l'
               \<and> Route l' = Route l \<and> Sequence l' = Sequence l
               \<and> ((\<forall>k \<in> set (read_driver_schedule file None).
                      Route k = Route l \<and> Sequence k = Sequence l \<longrightarrow> k = l) \<longrightarrow> l' = l)
               \<and> node_attrs G (start_node l) = Trailer_start (Zip l') (ArvDTTM l' - 6 * 3600)
               \<and> node_attrs G (end_node l) = Trailer_end (DestZip l') (NxtArvDTTM l' + 8 * 3600)
               \<and> ts_ok (ArvDTTM l - 6 * 3600) \<and> ts_ok (NxtArvDTTM l + 8 * 3600)"
    if g: "build_network_graph file = Inr G" and l: "l \<in> set (read_driver_schedule file None)" for G l
  proof -
    let ?ls = "read_driver_schedule file None"
    from g have b: "build_network_graph_from ?ls = Inr G" by (simp add: build_network_graph_def)
    from last_leg_exists[OF l] obtain l' where l': "last_leg ?ls (Route l, Sequence l) = Some l'" by blast
    from last_leg_Some[OF l'] have m: "l' \<in> set ?ls" "Route l' = Route l" "Sequence l' = Sequence l"
      by simp_all
    have u: "l' = l" if "\<forall>k \<in> set ?ls. Route k = Route l \<and> Sequence k = Sequence l \<longrightarrow> k = l"
      using last_leg_unique[OF l that] l' by simp
    have n: "node_attrs G (start_node l) = Trailer_start (Zip l') (ArvDTTM l' - 6 * 3600)"
        "node_attrs G (end_node l) = Trailer_end (DestZip l') (NxtArvDTTM l' + 8 * 3600)"
      unfolding start_node_def end_node_def build_node_attrs[OF b]
      by (simp_all add: l' start_attrs_def end_attrs_def td_hours_def preload_time_def drop_time_def)
    from build_Inr_plain(2)[OF b] l
    have r: "ts_ok (ArvDTTM l - 6 * 3600)" "ts_ok (NxtArvDTTM l + 8 * 3600)"
      by (simp_all add: legs_in_range_def list_all_iff td_hours_def preload_time_def drop_time_def)
    from l' m u n r show ?thesis by blast
  qed
  show ?thesis
    unfolding Let_def
    using legs_are_kept_rows[of "file"] leg_from_consecutive_rows[of _ "file"] c
    by (simp del: sort_key_simps)
qed

theorem legs_from_stops_witness:
  "build_network_graph one_route = Inr one_route_graph
   \<and> mk_leg 1 1 7 0 100 7 \<in> set (read_driver_schedule one_route None)
   \<and> node_attrs one_route_graph (Trl 1 1 Trl_start) = Trailer_start 7 (0 - 6 * 3600)
   \<and> node_attrs one_route_graph (Trl 1 1 Trl_end) = Trailer_end 7 (100 * 3600 + 8 * 3600)"
proof -
  have g: "build_network_graph one_route = Inr one_route_graph"
    by (simp add: build_network_graph_def one_route_read one_route_build)
  have l: "mk_leg 1 1 7 0 100 7 \<in> set (read_driver_schedule one_route None)"
    by (simp add: one_route_read one_route_legs_def)
  have u: "\<forall>k \<in> set (read_driver_schedule one_route None).
      Route k = Route (mk_leg 1 1 7 0 100 7) \<and> Sequence k = Sequence (mk_leg 1 1 7 0 100 7)
      \<longrightarrow> k = mk_leg 1 1 7 0 100 7"
    by (simp add: one_route_read one_route_legs_def mk_leg_def)
  from legs_from_stops[of one_route] g l
  have "\<exists>l' \<in> set (read_driver_schedule one_route None).
          ((\<forall>k \<in> set (read_driver_schedule one_route None).
              Route k = Route (mk_leg 1 1 7 0 100 7) \<and> Sequence k = Sequence (mk_leg 1 1 7 0 100 7)
              \<longrightarrow> k = mk_leg 1 1 7 0 100 7) \<longrightarrow> l' = mk_leg 1 1 7 0 100 7)
        \<and> node_attrs one_route_graph (start_node (mk_leg 1 1 7 0 100 7)) =
            Trailer_start (Zip l') (ArvDTTM l' - 6 * 3600)
        \<and> node_attrs one_route_graph (end_node (mk_leg 1 1 7 0 100 7)) =
            Trailer_end (DestZip l') (NxtArvDTTM l' + 8 * 3600)"
    unfolding Let_def by blast
  with u have "node_attrs one_route_graph (start_node (mk_leg 1 1 7 0 100 7)) =
          Trailer_start (Zip (mk_leg 1 1 7 0 100 7)) (ArvDTTM (mk_leg 1 1 7 0 100 7) - 6 * 3600)
      \<and> node_attrs one_route_graph (end_node (mk_leg 1 1 7 0 100 7)) =
          Trailer_end (DestZip (mk_leg 1 1 7 0 100 7)) (NxtArvDTTM (mk_leg 1 1 7 0 100 7) + 8 * 3600)"
    by blast
  then show ?thesis using g l
    by (simp add: mk_leg_def start_node_def end_node_def td_hours_def)
qed

section \<open>The minimum flow value\<close>

text \<open>The graph of two legs at one location, the second ready after the first has
  released its trailer.\<close>

lemma two_legs_graph:
  assumes k: "Route la \<noteq> Route lb \<or> Sequence la \<noteq> Sequence lb"
      and z: "Zip la = z" "DestZip la = z" "Zip lb = z" "DestZip lb = z"
      and t: "ArvDTTM la \<le> NxtArvDTTM la" "ArvDTTM lb \<le> NxtArvDTTM lb"
             "NxtArvDTTM la + td_hours drop_time < ArvDTTM lb - td_hours preload_time"
      and r: "legs_in_range [la, lb]"
  shows "build_network_graph_from [la, lb] = Inr (chain_graph z la lb)"
proof -
  define ns where "ns = [(Src, Source), (Snk, Target), (Loc z Pool_out, Location), (Loc z Pool_in, Location),
         (start_node la, start_attrs la), (start_node lb, start_attrs lb),
         (end_node la, end_attrs la), (end_node lb, end_attrs lb)]"
  define es where "es = [((Src, Loc z Pool_out), src_pool),
         ((Loc z Pool_in, Snk), sink_pool),
         ((Loc z Pool_out, start_node la), trl_supp),
         ((Loc z Pool_out, start_node lb), trl_supp),
         ((end_node la, Loc z Pool_in), trl_rtrn),
         ((end_node lb, Loc z Pool_in), trl_rtrn)]"
  have ne: "start_node la \<noteq> start_node lb" "end_node la \<noteq> end_node lb"
    "start_node lb \<noteq> start_node la" "end_node lb \<noteq> end_node la"
    using k by (auto simp: start_node_def end_node_def)
  have sh: "start_node x \<noteq> end_node y" "end_node y \<noteq> start_node x"
    "start_node x \<noteq> Src" "start_node x \<noteq> Snk" "end_node x \<noteq> Src" "end_node x \<noteq> Snk"
    "start_node x \<noteq> Loc c d" "end_node x \<noteq> Loc c d"
    "Src \<noteq> start_node x" "Snk \<noteq> start_node x" "Src \<noteq> end_node x" "Snk \<noteq> end_node x"
    "Loc c d \<noteq> start_node x" "Loc c d \<noteq> end_node x" for x y :: leg and c d
    by (simp_all add: start_node_def end_node_def)
  have tg: "tag (start_attrs x) = Some trailer_start" "tag (end_attrs x) = Some trailer_end" for x
    by (simp_all add: start_attrs_def end_attrs_def)
  have rs: "route_seq (start_node x) = Some (Route x, Sequence x)"
    "route_seq (end_node x) = Some (Route x, Sequence x)" for x :: leg
    by (simp_all add: start_node_def end_node_def)
  have ok: "same_trailer_ok (end_attrs la) (start_attrs lb)"
    "\<not> same_trailer_ok (end_attrs la) (start_attrs la)"
    "\<not> same_trailer_ok (end_attrs lb) (start_attrs la)"
    "\<not> same_trailer_ok (end_attrs lb) (start_attrs lb)"
    using z t by (simp_all add: start_attrs_def end_attrs_def td_hours_def drop_time_def preload_time_def)
  have ng: "plain_node_graph [la, lb] = \<lparr>nodes = ns, edges = []\<rparr>"
    unfolding ns_def
    by (simp add: plain_node_graph_def Let_def unique_def z empty_graph_def add_node_def ne sh)
  have pg: "plain_pool_graph [la, lb] = \<lparr>nodes = ns, edges = es\<rparr>"
    unfolding plain_pool_graph_def ng Let_def unfolding ns_def es_def
    by (simp add: unique_def z add_edges_from_def add_edge_def touch_node_def Let_def ne sh)
  have ts: "nodes_tagged trailer_start ns = Inr [start_node la, start_node lb]"
    and te: "nodes_tagged trailer_end ns = Inr [end_node la, end_node lb]"
    unfolding ns_def by (simp_all add: tg)
  have util: "concat (map (\<lambda>i. map (\<lambda>j. (i, j))
        (filter (\<lambda>j. route_seq i = route_seq j) [end_node la, end_node lb]))
        [start_node la, start_node lb]) = [(start_node la, end_node la), (start_node lb, end_node lb)]"
    using k by (auto simp: rs)
  define es1 where "es1 = es @ [((start_node la, end_node la), trailer_utilization),
         ((start_node lb, end_node lb), trailer_utilization)]"
  have G1: "add_edges_from [(start_node la, end_node la), (start_node lb, end_node lb)]
      trailer_utilization \<lparr>nodes = ns, edges = es\<rparr> = \<lparr>nodes = ns, edges = es1\<rparr>"
    unfolding ns_def es_def es1_def
    by (simp add: add_edges_from_def add_edge_def touch_node_def Let_def ne sh)
  have at: "node_attrs \<lparr>nodes = ns, edges = es1\<rparr> (start_node la) = start_attrs la"
    "node_attrs \<lparr>nodes = ns, edges = es1\<rparr> (start_node lb) = start_attrs lb"
    "node_attrs \<lparr>nodes = ns, edges = es1\<rparr> (end_node la) = end_attrs la"
    "node_attrs \<lparr>nodes = ns, edges = es1\<rparr> (end_node lb) = end_attrs lb"
    unfolding ns_def by (simp_all add: node_attrs_def ne sh)
  have same: "concat (map (\<lambda>i. map (\<lambda>j. (i, j))
        (filter (\<lambda>j. same_trailer_ok (node_attrs \<lparr>nodes = ns, edges = es1\<rparr> i)
                                       (node_attrs \<lparr>nodes = ns, edges = es1\<rparr> j))
           [start_node la, start_node lb]))
        [end_node la, end_node lb]) = [(end_node la, start_node lb)]"
    by (simp add: at ok)
  have G2: "add_edges_from [(end_node la, start_node lb)] same_trailer \<lparr>nodes = ns, edges = es1\<rparr>
      = \<lparr>nodes = ns, edges = es1 @ [((end_node la, start_node lb), same_trailer)]\<rparr>"
    unfolding ns_def es_def es1_def
    by (simp add: add_edges_from_def add_edge_def touch_node_def Let_def ne sh)
  have "trailer_edges (plain_pool_graph [la, lb]) =
      Inr \<lparr>nodes = ns, edges = es1 @ [((end_node la, start_node lb), same_trailer)]\<rparr>"
    unfolding trailer_edges_def Let_def pg
    by (simp only: graph.simps ts te sum.case util G1 same G2)
  then have "build_network_graph_from [la, lb] =
      Inr \<lparr>nodes = ns, edges = es1 @ [((end_node la, start_node lb), same_trailer)]\<rparr>"
    using r by (simp add: build_plain)
  then show ?thesis unfolding ns_def es1_def es_def chain_graph_def by simp
qed

lemma two_legs_model:
  fixes la lb :: leg and z :: int
  assumes k: "Route la \<noteq> Route lb \<or> Sequence la \<noteq> Sequence lb"
  shows "feasible (flow_model (chain_graph z la lb) bal_pool) a \<Longrightarrow> 1 \<le> a Flow_value"
    and "feasible (flow_model (chain_graph z la lb) bal_pool)
           (chain_flow z (start_node la) (end_node la) (start_node lb))"
proof -
  define G where "G = chain_graph z la lb"
  have ne: "start_node la \<noteq> start_node lb" "end_node la \<noteq> end_node lb"
    "start_node lb \<noteq> start_node la" "end_node lb \<noteq> end_node la"
    using k by (auto simp: start_node_def end_node_def)
  have sh: "start_node x \<noteq> end_node y" "end_node y \<noteq> start_node x"
    "start_node x \<noteq> Src" "start_node x \<noteq> Snk" "end_node x \<noteq> Src" "end_node x \<noteq> Snk"
    "start_node x \<noteq> Loc c d" "end_node x \<noteq> Loc c d"
    "Src \<noteq> start_node x" "Snk \<noteq> start_node x" "Src \<noteq> end_node x" "Snk \<noteq> end_node x"
    "Loc c d \<noteq> start_node x" "Loc c d \<noteq> end_node x" for x y :: leg and c d
    by (simp_all add: start_node_def end_node_def)
  have tg: "tag (start_attrs x) = Some trailer_start" "tag (end_attrs x) = Some trailer_end" for x
    by (simp_all add: start_attrs_def end_attrs_def)
  have f: "feasible (flow_model G bal_pool) a \<longleftrightarrow>
      0 \<le> a (Flow Src (Loc z Pool_out)) \<and> 0 \<le> a (Flow (Loc z Pool_in) Snk)
    \<and> 0 \<le> a (Flow (Loc z Pool_out) (start_node la)) \<and> 0 \<le> a (Flow (Loc z Pool_out) (start_node lb))
    \<and> 0 \<le> a (Flow (end_node la) (Loc z Pool_in)) \<and> 0 \<le> a (Flow (end_node lb) (Loc z Pool_in))
    \<and> a (Flow (start_node la) (end_node la)) = 1 \<and> a (Flow (start_node lb) (end_node lb)) = 1
    \<and> 0 \<le> a (Flow (end_node la) (start_node lb)) \<and> 0 \<le> a Flow_value
    \<and> a (Flow Src (Loc z Pool_out)) = a Flow_value
    \<and> a (Flow (Loc z Pool_in) Snk) = a Flow_value
    \<and> a (Flow (Loc z Pool_out) (start_node la)) + a (Flow (Loc z Pool_out) (start_node lb))
        = a (Flow Src (Loc z Pool_out))
    \<and> (bal_pool \<longrightarrow> a (Flow Src (Loc z Pool_out)) = a (Flow (Loc z Pool_in) Snk))
    \<and> a (Flow (Loc z Pool_in) Snk) = a (Flow (end_node la) (Loc z Pool_in)) + a (Flow (end_node lb) (Loc z Pool_in))
    \<and> a (Flow (start_node la) (end_node la)) = a (Flow (Loc z Pool_out) (start_node la))
    \<and> a (Flow (start_node lb) (end_node lb)) =
        a (Flow (Loc z Pool_out) (start_node lb)) + a (Flow (end_node la) (start_node lb))
    \<and> a (Flow (end_node la) (Loc z Pool_in)) + a (Flow (end_node la) (start_node lb))
        = a (Flow (start_node la) (end_node la))
    \<and> a (Flow (end_node lb) (Loc z Pool_in)) = a (Flow (start_node lb) (end_node lb))" for a
    unfolding G_def chain_graph_def
    by (auto simp: model_unfold ne sh tg)
  show "feasible (flow_model (chain_graph z la lb) bal_pool) a \<Longrightarrow> 1 \<le> a Flow_value"
    unfolding G_def[symmetric] f by linarith
  show "feasible (flow_model (chain_graph z la lb) bal_pool)
           (chain_flow z (start_node la) (end_node la) (start_node lb))"
    unfolding G_def[symmetric] f by (simp add: chain_flow_def ne sh)
qed


lemma objective_flow_model [simp]: "objective (flow_model G bal_pool) = Flow_value"
  by (simp add: flow_model_def)

lemma one_route_optimal: "feasible (flow_model one_route_graph False) b \<Longrightarrow> 2 \<le> b Flow_value"
  by (auto simp: model_unfold one_route_graph_def)

text \<open>
  C1, as the claim states it, fails in its example. The sheet \<open>one_route\<close> has three
  stops of one route at one location, 100 hours apart, so two legs of the same route,
  one after the other. The flow \<open>one_route_flow\<close> is feasible and no feasible flow has a
  smaller value, and the entry point reports the minimum 2, not 1.
\<close>

theorem one_route_needs_two_trailers:
  "build_network_graph one_route = Inr one_route_graph
   \<and> solves (\<lambda>m. Some one_route_flow) (flow_model one_route_graph False)
   \<and> solve_min_flow_prob (\<lambda>m. Some one_route_flow) one_route None =
       Inr (Minimum_trailers 2,
            Some (map (\<lambda>(i, j). ((i, j), one_route_flow (Flow i j))) (edge_list one_route_graph)))"
proof -
  have "solves (\<lambda>m. Some one_route_flow) (flow_model one_route_graph False)"
    using one_route_optimal by (simp add: solves_def one_route_feasible)
  then show ?thesis
    by (simp add: build_network_graph_def one_route_read one_route_build one_route_solve)
qed

lemma terminals_in_graph:
  assumes "build_network_graph_from ls = Inr G"
  shows "Src \<in> set (node_list G)" and "Snk \<in> set (node_list G)"
proof -
  have "map_of (nodes G) Src \<noteq> None" "map_of (nodes G) Snk \<noteq> None"
    unfolding build_Inr(1)[OF assms] by (simp_all add: pool_graph_terminals)
  then show "Src \<in> set (node_list G)" and "Snk \<in> set (node_list G)"
    by (simp_all add: node_list_def map_of_eq_None_iff)
qed

text \<open>
  C1, amended. The model equates the flow out of the source and the flow into the sink
  to the one variable \<open>v\<close> and minimises \<open>v\<close>; with an engine that keeps its contract,
  the value that the entry point reports is the value of \<open>v\<close> in a feasible flow and no
  feasible flow has a smaller one. In particular, for the graph built from two legs with
  different (route, sequence) pairs at one location, each arriving no later than its
  next stop, where the release time of the first is strictly before the ready time of
  the second, the reported minimum is exactly 1. Two legs that meet at a stop (the next
  arrival of the first is the arrival of the second), as two legs in a row of one route
  do, never pass the same-trailer test.
\<close>

theorem minimum_flow_value:
  assumes "build_network_graph_from ls = Inr G" and "solves solver (flow_model G bal_pool)"
  shows "objective (flow_model G bal_pool) = Flow_value
       \<and> Equal (sum_vars (out_flows G Src)) [(1, Flow_value)] \<in> set (constraints (flow_model G bal_pool))
       \<and> Equal (sum_vars (in_flows G Snk)) [(1, Flow_value)] \<in> set (constraints (flow_model G bal_pool))
       \<and> (\<forall>a. solver (flow_model G bal_pool) = Some a \<longrightarrow>
             solve_min_flow_prob_from solver ls bal_pool =
               Inr (Minimum_trailers (a Flow_value),
                    Some (map (\<lambda>(i, j). ((i, j), a (Flow i j))) (edge_list G)))
             \<and> feasible (flow_model G bal_pool) a
             \<and> sum_list (map a (out_flows G Src)) = a Flow_value
             \<and> sum_list (map a (in_flows G Snk)) = a Flow_value
             \<and> (\<forall>b. feasible (flow_model G bal_pool) b \<longrightarrow> a Flow_value \<le> b Flow_value))
       \<and> (\<forall>la lb z. ls = [la, lb]
             \<and> (Route la \<noteq> Route lb \<or> Sequence la \<noteq> Sequence lb)
             \<and> Zip la = z \<and> DestZip la = z \<and> Zip lb = z \<and> DestZip lb = z
             \<and> ArvDTTM la \<le> NxtArvDTTM la \<and> ArvDTTM lb \<le> NxtArvDTTM lb
             \<and> NxtArvDTTM la + td_hours drop_time < ArvDTTM lb - td_hours preload_time
             \<longrightarrow> (\<exists>sol. solve_min_flow_prob_from solver ls bal_pool = Inr (Minimum_trailers 1, Some sol)))
       \<and> (\<forall>la lb. NxtArvDTTM la = ArvDTTM lb \<longrightarrow> \<not> same_trailer_ok (end_attrs la) (start_attrs lb))"
proof (intro conjI allI impI)
  let ?m = "flow_model G bal_pool"
  show "objective ?m = Flow_value" by simp
  have cs: "conservation G Src = Equal (sum_vars (out_flows G Src)) [(1, Flow_value)]"
    and ct: "conservation G Snk = Equal (sum_vars (in_flows G Snk)) [(1, Flow_value)]"
    by (simp_all add: conservation_def)
  show s: "Equal (sum_vars (out_flows G Src)) [(1, Flow_value)] \<in> set (constraints ?m)"
    using conservation_declared[OF terminals_in_graph(1)[OF assms(1)], of bal_pool] by (simp add: cs)
  show t: "Equal (sum_vars (in_flows G Snk)) [(1, Flow_value)] \<in> set (constraints ?m)"
    using conservation_declared[OF terminals_in_graph(2)[OF assms(1)], of bal_pool] by (simp add: ct)
  show "\<not> same_trailer_ok (end_attrs la) (start_attrs lb)" if "NxtArvDTTM la = ArvDTTM lb" for la lb
    using that by (simp add: end_attrs_def start_attrs_def td_hours_def drop_time_def preload_time_def)
  have r: "solve_min_flow_prob_from solver ls bal_pool =
      Inr (Minimum_trailers (a Flow_value), Some (map (\<lambda>(i, j). ((i, j), a (Flow i j))) (edge_list G)))"
    if "solver ?m = Some a" for a
    using that assms(1) by (simp add: solve_min_flow_prob_from_def)
  have opt: "feasible ?m a \<and> (\<forall>b. feasible ?m b \<longrightarrow> a Flow_value \<le> b Flow_value)"
    if "solver ?m = Some a" for a
    using that assms(2) by (simp add: solves_def)
  {
    fix a assume a: "solver ?m = Some a"
    show "solve_min_flow_prob_from solver ls bal_pool =
      Inr (Minimum_trailers (a Flow_value), Some (map (\<lambda>(i, j). ((i, j), a (Flow i j))) (edge_list G)))"
      by (rule r[OF a])
    show f: "feasible ?m a" using opt[OF a] by simp
    from feasible_holds[OF f s] show "sum_list (map a (out_flows G Src)) = a Flow_value"
      by (simp add: eval_sum_vars eval_single)
    from feasible_holds[OF f t] show "sum_list (map a (in_flows G Snk)) = a Flow_value"
      by (simp add: eval_sum_vars eval_single)
    fix b assume "feasible ?m b"
    with opt[OF a] show "a Flow_value \<le> b Flow_value" by simp
  }
  fix la lb z
  assume h: "ls = [la, lb]
             \<and> (Route la \<noteq> Route lb \<or> Sequence la \<noteq> Sequence lb)
             \<and> Zip la = z \<and> DestZip la = z \<and> Zip lb = z \<and> DestZip lb = z
             \<and> ArvDTTM la \<le> NxtArvDTTM la \<and> ArvDTTM lb \<le> NxtArvDTTM lb
             \<and> NxtArvDTTM la + td_hours drop_time < ArvDTTM lb - td_hours preload_time"
  then have k: "Route la \<noteq> Route lb \<or> Sequence la \<noteq> Sequence lb" by simp
  from h assms(1) have "legs_in_range [la, lb]"
    using build_Inr_plain(2)[of ls G] by simp
  with h have "build_network_graph_from [la, lb] = Inr (chain_graph z la lb)"
    by (intro two_legs_graph) simp_all
  with assms(1) h have G: "G = chain_graph z la lb" by simp
  let ?c = "chain_flow z (start_node la) (end_node la) (start_node lb)"
  have fc: "feasible ?m ?c" unfolding G by (rule two_legs_model(2)[OF k])
  have c1: "?c Flow_value = 1" by (simp add: chain_flow_def)
  from fc assms(2) obtain a where a: "solver ?m = Some a"
    by (cases "solver ?m") (auto simp: solves_def)
  from opt[OF a] fc c1 have "a Flow_value \<le> 1" by fastforce
  moreover from opt[OF a] have "1 \<le> a Flow_value"
    unfolding G using two_legs_model(1)[OF k] by blast
  ultimately have "a Flow_value = 1" by simp
  with r[OF a] show "\<exists>sol. solve_min_flow_prob_from solver ls bal_pool = Inr (Minimum_trailers 1, Some sol)"
    by simp
qed

theorem minimum_flow_value_witness:
  "build_network_graph_from two_routes_legs = Inr two_routes_graph
   \<and> solves (\<lambda>m. Some (chain_flow 7 (Trl 1 1 Trl_start) (Trl 1 1 Trl_end) (Trl 2 1 Trl_start)))
        (flow_model two_routes_graph False)
   \<and> (\<exists>sol. solve_min_flow_prob_from
          (\<lambda>m. Some (chain_flow 7 (Trl 1 1 Trl_start) (Trl 1 1 Trl_end) (Trl 2 1 Trl_start)))
          two_routes_legs False = Inr (Minimum_trailers 1, Some sol))"
proof -
  let ?la = "mk_leg 1 1 7 0 10 7" and ?lb = "mk_leg 2 1 7 100 110 7"
  let ?c = "chain_flow 7 (Trl 1 1 Trl_start) (Trl 1 1 Trl_end) (Trl 2 1 Trl_start)"
  have k: "Route ?la \<noteq> Route ?lb \<or> Sequence ?la \<noteq> Sequence ?lb" by (simp add: mk_leg_def)
  have g: "two_routes_graph = chain_graph 7 ?la ?lb"
    by (simp add: two_routes_graph_def chain_graph_def start_node_def end_node_def start_attrs_def
        end_attrs_def mk_leg_def td_hours_def preload_time_def drop_time_def)
  have c: "?c = chain_flow 7 (start_node ?la) (end_node ?la) (start_node ?lb)"
    by (simp add: start_node_def end_node_def mk_leg_def)
  have f: "feasible (flow_model two_routes_graph False) ?c"
    unfolding g c by (rule two_legs_model(2)[OF k])
  have o: "\<forall>b. feasible (flow_model two_routes_graph False) b \<longrightarrow> ?c Flow_value \<le> b Flow_value"
    unfolding g using two_legs_model(1)[OF k, of 7 False] by (simp add: chain_flow_def)
  have s: "solves (\<lambda>m. Some ?c) (flow_model two_routes_graph False)"
    using f o by (simp add: solves_def)
  have h: "two_routes_legs = [?la, ?lb]
             \<and> (Route ?la \<noteq> Route ?lb \<or> Sequence ?la \<noteq> Sequence ?lb)
             \<and> Zip ?la = 7 \<and> DestZip ?la = 7 \<and> Zip ?lb = 7 \<and> DestZip ?lb = 7
             \<and> ArvDTTM ?la \<le> NxtArvDTTM ?la \<and> ArvDTTM ?lb \<le> NxtArvDTTM ?lb
             \<and> NxtArvDTTM ?la + td_hours drop_time < ArvDTTM ?lb - td_hours preload_time"
    by (simp add: two_routes_legs_def mk_leg_def td_hours_def preload_time_def drop_time_def)
  from minimum_flow_value[OF two_routes_build s] h
  have "\<exists>sol. solve_min_flow_prob_from (\<lambda>m. Some ?c) two_routes_legs False = Inr (Minimum_trailers 1, Some sol)"
    by blast
  with two_routes_build s show ?thesis by blast
qed

end
